theory Spec2Isabelle
  imports Complex_Main "HOL-Library.List_Lexorder" "HOL-Library.Log_Nat"
begin

section \<open>Floating-point numbers\<close>

text \<open>
  A Python \<^verbatim>\<open>float\<close> is an IEEE 754 double: a sign, a significand of 53 bits and a power
  of two, from the -1022nd to the 1023rd. A finite double is modelled by the real number
  it denotes, and an operation by its exact result rounded to the nearest double, to the
  one with the even significand when two are equally near.
\<close>

text \<open>The nearest integer, the even one of two that are equally near.\<close>

definition round_half_even :: "real \<Rightarrow> int" where
  "round_half_even x =
     (let n = \<lfloor>x\<rfloor> in
      if x - of_int n < 1 / 2 then n
      else if 1 / 2 < x - of_int n then n + 1
      else if even n then n else n + 1)"

text \<open>
  The exponent of a positive number: the power of two that is at most the number, the
  next power being above it.
\<close>

definition exponent :: "real \<Rightarrow> int" where
  "exponent x = (if 1 \<le> x then bitlen \<lfloor>x\<rfloor> - 1 else - bitlen (\<lceil>1 / x\<rceil> - 1))"

text \<open>
  The distance between the doubles around \<open>x\<close>: 52 binary places below the exponent of
  \<open>x\<close>, and below the exponent -1022 for the subnormal numbers.
\<close>

definition quantum :: "real \<Rightarrow> real" where
  "quantum x = 2 powi (max (exponent \<bar>x\<bar>) (- 1022) - 52)"

text \<open>
  Rounding to the nearest multiple of the quantum. The result is a double when it is
  below the 1024th power of two in magnitude, and the operation has overflowed otherwise.
\<close>

definition to_double :: "real \<Rightarrow> real" where
  "to_double x = (if x = 0 then 0 else of_int (round_half_even (x / quantum x)) * quantum x)"

definition is_double :: "real \<Rightarrow> bool" where
  "is_double x \<longleftrightarrow> to_double x = x \<and> \<bar>x\<bar> < 2 ^ 1024"

text \<open>
  The result of an arithmetic operation on two doubles: float arithmetic does not raise
  on overflow, it returns an infinity. (The difference of two finite doubles is never a
  NaN.)
\<close>

datatype float = Finite real | Infinity | Minus_infinity

definition float_result :: "real \<Rightarrow> float" where
  "float_result x =
     (if 2 ^ 1024 \<le> to_double x then Infinity
      else if to_double x \<le> - (2 ^ 1024) then Minus_infinity
      else Finite (to_double x))"

text \<open>\<^verbatim>\<open>x - y\<close> on two doubles.\<close>

definition float_sub :: "real \<Rightarrow> real \<Rightarrow> float" where
  "float_sub x y = float_result (x - y)"

text \<open>
  \<^verbatim>\<open>x <= y\<close> for the result \<open>x\<close> of an operation and a finite number \<open>y\<close>, an \<^verbatim>\<open>int\<close> or a
  \<^verbatim>\<open>float\<close>; Python compares the two exactly.
\<close>

fun float_le :: "float \<Rightarrow> real \<Rightarrow> bool" where
  "float_le (Finite x) y = (x \<le> y)"
| "float_le Infinity y = False"
| "float_le Minus_infinity y = True"

section \<open>Python values\<close>

text \<open>
  The store of \<^verbatim>\<open>PMLL.py\<close> is a Python dictionary of dictionaries; the data a caller puts
  into it are any values, and after \<^verbatim>\<open>load_memory\<close> the store is whatever \<^verbatim>\<open>json.load\<close>
  returned. Values are therefore modelled dynamically typed: \<^verbatim>\<open>None\<close>, \<^verbatim>\<open>bool\<close>, \<^verbatim>\<open>int\<close>,
  \<^verbatim>\<open>float\<close>, \<^verbatim>\<open>str\<close>, \<^verbatim>\<open>list\<close>, \<^verbatim>\<open>tuple\<close>, \<^verbatim>\<open>dict\<close> with string keys and, for a value of
  any other class, an object without special methods, known by its address: it is equal
  to itself only, and it has no order, no length, no items and no JSON form.

  A \<^verbatim>\<open>str\<close> is its list of code points, each below 1114112. A \<^verbatim>\<open>float\<close> is the real
  number it denotes, which is a double (\<^const>\<open>is_double\<close>) for every float Python
  computes; the properties below hold for every real number in its place. A \<^verbatim>\<open>dict\<close> is
  an association list in insertion order, which is the order \<^verbatim>\<open>items()\<close> and \<^verbatim>\<open>json.dump\<close>
  follow.

  Outside the model are the floats that are no numbers, NaN and the two infinities as
  stored values (\<^verbatim>\<open>time.time()\<close> never returns them; a caller can store them and a JSON
  file can hold them), because \<^verbatim>\<open><\<close> is no order on NaN and the result of \<^verbatim>\<open>sorted\<close> then
  depends on the sorting algorithm; and dictionaries with a key that is not a string.
\<close>

type_synonym pystr = "nat list"

datatype pyval =
    PNone
  | PBool bool
  | PInt int
  | PFloat real
  | PStr pystr
  | PList "pyval list"
  | PTuple "pyval list"
  | PDict "(pystr \<times> pyval) list"
  | PObject nat

datatype error =
    AttributeError
  | UnicodeEncodeError
  | TypeError
  | KeyError
  | IndexError
  | OverflowError
  | ValueError
  | FileNotFoundError
  | PermissionError
  | IsADirectoryError
  | UnicodeDecodeError
  | JSONDecodeError

definition str :: "string \<Rightarrow> pystr" where
  "str s = map of_char s"

subsection \<open>Dictionaries\<close>

text \<open>\<^verbatim>\<open>d[k] = v\<close>: an existing key keeps its position, a new key goes last.\<close>

fun dict_set :: "pystr \<Rightarrow> pyval \<Rightarrow> (pystr \<times> pyval) list \<Rightarrow> (pystr \<times> pyval) list" where
  "dict_set k v [] = [(k, v)]"
| "dict_set k v ((k', v') # kvs) =
     (if k' = k then (k, v) # kvs else (k', v') # dict_set k v kvs)"

text \<open>\<^verbatim>\<open>del d[k]\<close> for a key that is present.\<close>

fun dict_delete :: "pystr \<Rightarrow> (pystr \<times> pyval) list \<Rightarrow> (pystr \<times> pyval) list" where
  "dict_delete k [] = []"
| "dict_delete k ((k', v') # kvs) =
     (if k' = k then kvs else (k', v') # dict_delete k kvs)"

text \<open>\<^verbatim>\<open>s in t\<close> on two strings is the substring test.\<close>

fun str_contains :: "pystr \<Rightarrow> pystr \<Rightarrow> bool" where
  "str_contains [] k = (k = [])"
| "str_contains (c # s) k = (take (length k) (c # s) = k \<or> str_contains s k)"

text \<open>
  \<^verbatim>\<open>k in container\<close> for a string \<open>k\<close>; in a list or a tuple it looks for an element equal
  to \<open>k\<close>, which only the same string is.
\<close>

fun py_contains :: "pyval \<Rightarrow> pystr \<Rightarrow> error + bool" where
  "py_contains (PDict kvs) k = Inr (map_of kvs k \<noteq> None)"
| "py_contains (PList xs) k = Inr (List.member xs (PStr k))"
| "py_contains (PTuple xs) k = Inr (List.member xs (PStr k))"
| "py_contains (PStr s) k = Inr (str_contains s k)"
| "py_contains _ k = Inl TypeError"

text \<open>\<^verbatim>\<open>container[k]\<close> for a string \<open>k\<close>: only a dictionary can be indexed by a string.\<close>

fun py_getitem :: "pyval \<Rightarrow> pystr \<Rightarrow> error + pyval" where
  "py_getitem (PDict kvs) k = (case map_of kvs k of None \<Rightarrow> Inl KeyError | Some v \<Rightarrow> Inr v)"
| "py_getitem _ k = Inl TypeError"

text \<open>\<^verbatim>\<open>container[k] = v\<close> for a string \<open>k\<close>.\<close>

fun py_setitem :: "pyval \<Rightarrow> pystr \<Rightarrow> pyval \<Rightarrow> error + pyval" where
  "py_setitem (PDict kvs) k v = Inr (PDict (dict_set k v kvs))"
| "py_setitem _ k v = Inl TypeError"

text \<open>\<^verbatim>\<open>del container[k]\<close> for a string \<open>k\<close>.\<close>

fun py_delitem :: "pyval \<Rightarrow> pystr \<Rightarrow> error + pyval" where
  "py_delitem (PDict kvs) k =
     (case map_of kvs k of None \<Rightarrow> Inl KeyError | Some _ \<Rightarrow> Inr (PDict (dict_delete k kvs)))"
| "py_delitem _ k = Inl TypeError"

text \<open>\<^verbatim>\<open>len(container)\<close>.\<close>

fun py_len :: "pyval \<Rightarrow> error + int" where
  "py_len (PDict kvs) = Inr (int (length kvs))"
| "py_len (PList xs) = Inr (int (length xs))"
| "py_len (PTuple xs) = Inr (int (length xs))"
| "py_len (PStr s) = Inr (int (length s))"
| "py_len _ = Inl TypeError"

subsection \<open>Numbers, equality and order\<close>

text \<open>The numeric value of a \<^verbatim>\<open>bool\<close>, \<^verbatim>\<open>int\<close> or \<^verbatim>\<open>float\<close>; \<^verbatim>\<open>True\<close> is 1.\<close>

fun py_num :: "pyval \<Rightarrow> real option" where
  "py_num (PBool b) = Some (if b then 1 else 0)"
| "py_num (PInt i) = Some (real_of_int i)"
| "py_num (PFloat r) = Some r"
| "py_num _ = None"

text \<open>
  The operand of float arithmetic: an \<^verbatim>\<open>int\<close> becomes the nearest \<^verbatim>\<open>float\<close>, and one that
  rounds to no finite \<^verbatim>\<open>float\<close> raises \<^verbatim>\<open>OverflowError\<close>.
\<close>

fun py_float :: "pyval \<Rightarrow> error + real" where
  "py_float (PBool b) = Inr (if b then 1 else 0)"
| "py_float (PInt i) =
     (if \<bar>to_double (real_of_int i)\<bar> < 2 ^ 1024 then Inr (to_double (real_of_int i))
      else Inl OverflowError)"
| "py_float (PFloat r) = Inr r"
| "py_float _ = Inl TypeError"

text \<open>\<^verbatim>\<open>t - x\<close> for a float \<open>t\<close>.\<close>

definition py_sub :: "real \<Rightarrow> pyval \<Rightarrow> error + float" where
  "py_sub t x = (case py_float x of Inl e \<Rightarrow> Inl e | Inr r \<Rightarrow> Inr (float_sub t r))"

text \<open>
  \<^verbatim>\<open>a == b\<close>: numbers compare by value across \<^verbatim>\<open>bool\<close>, \<^verbatim>\<open>int\<close> and \<^verbatim>\<open>float\<close>, lists and
  tuples element by element, dictionaries key by key whatever their order, objects by
  address, and values of different kinds are unequal.
\<close>

fun py_eq :: "pyval \<Rightarrow> pyval \<Rightarrow> bool"
  and py_eq_list :: "pyval list \<Rightarrow> pyval list \<Rightarrow> bool"
  and py_eq_items :: "(pystr \<times> pyval) list \<Rightarrow> (pystr \<times> pyval) list \<Rightarrow> bool"
  and py_eq_item :: "pystr \<Rightarrow> pyval \<Rightarrow> (pystr \<times> pyval) list \<Rightarrow> bool"
where
  "py_eq (PList xs) (PList ys) = py_eq_list xs ys"
| "py_eq (PTuple xs) (PTuple ys) = py_eq_list xs ys"
| "py_eq (PDict a) (PDict b) = (length a = length b \<and> py_eq_items a b)"
| "py_eq (PStr s) (PStr t) = (s = t)"
| "py_eq (PObject a) (PObject b) = (a = b)"
| "py_eq PNone PNone = True"
| "py_eq a b = (case (py_num a, py_num b) of (Some x, Some y) \<Rightarrow> x = y | _ \<Rightarrow> False)"
| "py_eq_list [] [] = True"
| "py_eq_list (x # xs) (y # ys) = (py_eq x y \<and> py_eq_list xs ys)"
| "py_eq_list _ _ = False"
| "py_eq_items [] b = True"
| "py_eq_items ((k, v) # a) b = (py_eq_item k v b \<and> py_eq_items a b)"
| "py_eq_item k v [] = False"
| "py_eq_item k v ((k', v') # b) = (if k' = k then py_eq v v' else py_eq_item k v b)"

text \<open>
  \<^verbatim>\<open>a < b\<close>: numbers by value, strings by code points, two lists or two tuples by their
  first unequal elements (or by length); anything else raises \<^verbatim>\<open>TypeError\<close>.
\<close>

fun py_lt :: "pyval \<Rightarrow> pyval \<Rightarrow> error + bool"
  and py_lt_list :: "pyval list \<Rightarrow> pyval list \<Rightarrow> error + bool"
where
  "py_lt (PList xs) (PList ys) = py_lt_list xs ys"
| "py_lt (PTuple xs) (PTuple ys) = py_lt_list xs ys"
| "py_lt (PStr s) (PStr t) = Inr (s < t)"
| "py_lt a b = (case (py_num a, py_num b) of (Some x, Some y) \<Rightarrow> Inr (x < y) | _ \<Rightarrow> Inl TypeError)"
| "py_lt_list [] ys = Inr (ys \<noteq> [])"
| "py_lt_list (x # xs) [] = Inr False"
| "py_lt_list (x # xs) (y # ys) = (if py_eq x y then py_lt_list xs ys else py_lt x y)"

section \<open>The store\<close>

subsection \<open>Sorting the items by timestamp\<close>

text \<open>
  \<^verbatim>\<open>sorted(self.memory.items(), key=lambda x: x[1]["timestamp"])\<close> first applies the key
  function to every item, in order, and raises at the first item whose entry has no
  \<^verbatim>\<open>"timestamp"\<close>.
\<close>

fun timestamps :: "(pystr \<times> pyval) list \<Rightarrow> error + pyval list" where
  "timestamps [] = Inr []"
| "timestamps ((k, entry) # items) =
     (case py_getitem entry (str ''timestamp'') of
        Inl e \<Rightarrow> Inl e
      | Inr t \<Rightarrow> (case timestamps items of Inl e \<Rightarrow> Inl e | Inr ts \<Rightarrow> Inr (t # ts)))"

text \<open>
  The sort is stable: an item goes before the first item whose key is not smaller
  than its own, so items with equal keys keep the order of the dictionary.
\<close>

fun py_insort :: "pyval \<times> 'a \<Rightarrow> (pyval \<times> 'a) list \<Rightarrow> (pyval \<times> 'a) list" where
  "py_insort x [] = [x]"
| "py_insort x (y # ys) =
     (if py_lt (fst y) (fst x) = Inr True then y # py_insort x ys else x # y # ys)"

definition comparable :: "pyval list \<Rightarrow> bool" where
  "comparable ts = list_all (\<lambda>a. list_all (\<lambda>b. py_lt a b \<noteq> Inl TypeError) ts) ts"

text \<open>
  With fewer than two items nothing is compared. With two or more, a comparison sort
  has to order every pair of keys, and no third key lies between two keys that \<^verbatim>\<open><\<close>
  cannot compare, so the sort reaches such a pair and \<^verbatim>\<open>TypeError\<close> leaves it.
\<close>

definition py_sorted :: "(pystr \<times> pyval) list \<Rightarrow> error + (pystr \<times> pyval) list" where
  "py_sorted items =
     (case timestamps items of
        Inl e \<Rightarrow> Inl e
      | Inr ts \<Rightarrow>
          if 2 \<le> length ts \<and> \<not> comparable ts then Inl TypeError
          else Inr (map snd (foldr py_insort (zip ts items) [])))"

subsection \<open>The class\<close>

record store =
  memory :: pyval
  memory_timeout :: real
  max_memory_size :: int

text \<open>\<^verbatim>\<open>__init__\<close>; the defaults are 300 seconds and 1024 entries.\<close>

definition init :: "real \<Rightarrow> int \<Rightarrow> store" where
  "init timeout max_size =
     \<lparr>memory = PDict [], memory_timeout = timeout, max_memory_size = max_size\<rparr>"

text \<open>
  \<^verbatim>\<open>str.encode()\<close> is UTF-8 and refuses surrogate code points (U+D800 to U+DFFF).
\<close>

definition is_surrogate :: "nat \<Rightarrow> bool" where
  "is_surrogate c \<longleftrightarrow> 55296 \<le> c \<and> c \<le> 57343"

definition utf8_char :: "nat \<Rightarrow> nat list" where
  "utf8_char c =
     (if c < 128 then [c]
      else if c < 2048 then [192 + c div 64, 128 + c mod 64]
      else if c < 65536 then [224 + c div 4096, 128 + c div 64 mod 64, 128 + c mod 64]
      else [240 + c div 262144, 128 + c div 4096 mod 64, 128 + c div 64 mod 64,
            128 + c mod 64])"

definition encode :: "pystr \<Rightarrow> error + nat list" where
  "encode s =
     (if list_ex is_surrogate s then Inl UnicodeEncodeError
      else Inr (concat (map utf8_char s)))"

text \<open>
  \<^verbatim>\<open>_hash_key\<close>. The digest \<^verbatim>\<open>sha256(...).hexdigest()\<close> of \<^verbatim>\<open>hashlib\<close> is the parameter
  \<open>sha256\<close>, from the encoded bytes to the hexadecimal string. Only a \<^verbatim>\<open>str\<close> has
  \<^verbatim>\<open>encode\<close>.
\<close>

definition hash_key :: "(nat list \<Rightarrow> pystr) \<Rightarrow> pyval \<Rightarrow> error + pystr" where
  "hash_key sha256 key =
     (case key of
        PStr s \<Rightarrow> (case encode s of Inl e \<Rightarrow> Inl e | Inr bytes \<Rightarrow> Inr (sha256 bytes))
      | _ \<Rightarrow> Inl AttributeError)"

text \<open>
  The loop of \<^verbatim>\<open>_prune_memory\<close>: while the dictionary is over the limit, pop the head
  of the sorted list (\<^verbatim>\<open>IndexError\<close> on an empty list) and delete its key.
\<close>

fun prune_loop ::
  "int \<Rightarrow> (pystr \<times> pyval) list \<Rightarrow> (pystr \<times> pyval) list \<Rightarrow>
     (error + unit) \<times> (pystr \<times> pyval) list" where
  "prune_loop max_size mem sorted_memory =
     (if int (length mem) > max_size then
        (case sorted_memory of
           [] \<Rightarrow> (Inl IndexError, mem)
         | (oldest_key, _) # rest \<Rightarrow>
             (case map_of mem oldest_key of
                None \<Rightarrow> (Inl KeyError, mem)
              | Some _ \<Rightarrow> prune_loop max_size (dict_delete oldest_key mem) rest))
      else (Inr (), mem))"

declare prune_loop.simps [simp del]

text \<open>\<^verbatim>\<open>_prune_memory\<close>; only a dictionary has \<^verbatim>\<open>items()\<close>.\<close>

definition prune_memory :: "store \<Rightarrow> (error + unit) \<times> store" where
  "prune_memory s =
     (case memory s of
        PDict mem \<Rightarrow>
          (case py_sorted mem of
             Inl e \<Rightarrow> (Inl e, s)
           | Inr sorted_memory \<Rightarrow>
               (case prune_loop (max_memory_size s) mem sorted_memory of
                  (r, mem') \<Rightarrow> (r, s\<lparr>memory := PDict mem'\<rparr>)))
      | _ \<Rightarrow> (Inl AttributeError, s))"

text \<open>
  \<^verbatim>\<open>add_to_memory\<close>; \<open>current_time\<close> is what \<^verbatim>\<open>time.time()\<close> returns. An exception
  leaves the store as it is at that point.
\<close>

definition add_to_memory ::
  "(nat list \<Rightarrow> pystr) \<Rightarrow> store \<Rightarrow> pyval \<Rightarrow> pyval \<Rightarrow> real \<Rightarrow> (error + unit) \<times> store" where
  "add_to_memory sha256 s key value current_time =
     (case hash_key sha256 key of
        Inl e \<Rightarrow> (Inl e, s)
      | Inr hashed_key \<Rightarrow>
          (case py_setitem (memory s) hashed_key
                  (PDict [(str ''timestamp'', PFloat current_time), (str ''data'', value)]) of
             Inl e \<Rightarrow> (Inl e, s)
           | Inr mem \<Rightarrow>
               (case py_len mem of
                  Inl e \<Rightarrow> (Inl e, s\<lparr>memory := mem\<rparr>)
                | Inr n \<Rightarrow>
                    if n > max_memory_size s then prune_memory (s\<lparr>memory := mem\<rparr>)
                    else (Inr (), s\<lparr>memory := mem\<rparr>))))"

text \<open>
  \<^verbatim>\<open>get_from_memory\<close>; the result \<^verbatim>\<open>None\<close> of the last line is \<^const>\<open>PNone\<close>. The age
  is the rounded difference \<^verbatim>\<open>current_time - entry["timestamp"]\<close>, compared with the
  timeout as it is.
\<close>

definition get_from_memory ::
  "(nat list \<Rightarrow> pystr) \<Rightarrow> store \<Rightarrow> pyval \<Rightarrow> real \<Rightarrow> (error + pyval) \<times> store" where
  "get_from_memory sha256 s key current_time =
     (case hash_key sha256 key of
        Inl e \<Rightarrow> (Inl e, s)
      | Inr hashed_key \<Rightarrow>
          (case py_contains (memory s) hashed_key of
             Inl e \<Rightarrow> (Inl e, s)
           | Inr False \<Rightarrow> (Inr PNone, s)
           | Inr True \<Rightarrow>
               (case py_getitem (memory s) hashed_key of
                  Inl e \<Rightarrow> (Inl e, s)
                | Inr entry \<Rightarrow>
                    (case py_getitem entry (str ''timestamp'') of
                       Inl e \<Rightarrow> (Inl e, s)
                     | Inr t \<Rightarrow>
                         (case py_sub current_time t of
                            Inl e \<Rightarrow> (Inl e, s)
                          | Inr age \<Rightarrow>
                              if float_le age (memory_timeout s) then
                                (case py_getitem entry (str ''data'') of
                                   Inl e \<Rightarrow> (Inl e, s)
                                 | Inr d \<Rightarrow> (Inr d, s))
                              else
                                (case py_delitem (memory s) hashed_key of
                                   Inl e \<Rightarrow> (Inl e, s)
                                 | Inr mem \<Rightarrow> (Inr PNone, s\<lparr>memory := mem\<rparr>)))))))"

subsection \<open>JSON\<close>


text \<open>
  Python converts between an \<^verbatim>\<open>int\<close> and its decimal digits only up to 4300 digits (the
  default of \<^verbatim>\<open>sys.set_int_max_str_digits\<close>) and raises \<^verbatim>\<open>ValueError\<close> beyond.
\<close>

definition max_str_digits :: nat where
  "max_str_digits = 4300"

definition int_has_str :: "int \<Rightarrow> bool" where
  "int_has_str i \<longleftrightarrow> \<bar>i\<bar> < 10 ^ max_str_digits"







subsection \<open>Files\<close>

text \<open>
  A path names nothing in an existing directory (\<open>None\<close>), or one of these: a file, which
  is modelled by what \<^verbatim>\<open>json.load\<close> makes of it, namely the value of the document it
  holds, text that is not JSON, bytes that are not text at all, or a document with a
  number of too many digits; a file the process may neither read nor write; a directory;
  or a place in a directory that does not exist.
\<close>

datatype node =
    Json_document pyval
  | Not_json
  | Not_text
  | Too_many_digits
  | Refused
  | Directory
  | No_directory

type_synonym filesystem = "string \<Rightarrow> node option"

text \<open>\<^verbatim>\<open>open(filename, "r")\<close>.\<close>

definition open_read :: "filesystem \<Rightarrow> string \<Rightarrow> error + node" where
  "open_read fs filename =
     (case fs filename of
        None \<Rightarrow> Inl FileNotFoundError
      | Some No_directory \<Rightarrow> Inl FileNotFoundError
      | Some Refused \<Rightarrow> Inl PermissionError
      | Some Directory \<Rightarrow> Inl IsADirectoryError
      | Some f \<Rightarrow> Inr f)"


text \<open>\<^verbatim>\<open>json.load\<close> on a file that \<^verbatim>\<open>open\<close> has opened.\<close>

definition json_load :: "node \<Rightarrow> error + pyval" where
  "json_load f =
     (case f of
        Json_document v \<Rightarrow> Inr v
      | Not_text \<Rightarrow> Inl UnicodeDecodeError
      | Too_many_digits \<Rightarrow> Inl ValueError
      | _ \<Rightarrow> Inl JSONDecodeError)"


subsection \<open>Persistence\<close>


text \<open>
  \<^verbatim>\<open>load_memory\<close>: the assignment happens only when \<^verbatim>\<open>json.load\<close> has returned, and
  of the exceptions only \<^verbatim>\<open>FileNotFoundError\<close> is caught.
\<close>

definition load_memory :: "store \<Rightarrow> string \<Rightarrow> filesystem \<Rightarrow> (error + unit) \<times> store" where
  "load_memory s filename fs =
     (case (case open_read fs filename of Inl e \<Rightarrow> Inl e | Inr f \<Rightarrow> json_load f) of
        Inr v \<Rightarrow> (Inr (), s\<lparr>memory := v\<rparr>)
      | Inl FileNotFoundError \<Rightarrow> (Inr (), s\<lparr>memory := PDict []\<rparr>)
      | Inl e \<Rightarrow> (Inl e, s))"

section \<open>Notions used to state the properties\<close>

text \<open>
  A caller making one \<^verbatim>\<open>add_to_memory\<close> call after the other, each with its key, its
  value and the time of the call; an exception ends the run.
\<close>

fun add_all ::
  "(nat list \<Rightarrow> pystr) \<Rightarrow> store \<Rightarrow> (pyval \<times> pyval \<times> real) list \<Rightarrow> (error + unit) \<times> store" where
  "add_all sha256 s [] = (Inr (), s)"
| "add_all sha256 s ((key, value, t) # calls) =
     (case add_to_memory sha256 s key value t of
        (Inl e, s') \<Rightarrow> (Inl e, s')
      | (Inr _, s') \<Rightarrow> add_all sha256 s' calls)"

text \<open>
  One call of a public method, and the store it leaves, whether it returns or raises.
\<close>

datatype call =
    Add_to_memory pyval pyval real
  | Get_from_memory pyval real
  | Save_memory string
  | Load_memory string

fun store_after :: "(nat list \<Rightarrow> pystr) \<Rightarrow> filesystem \<Rightarrow> store \<Rightarrow> call \<Rightarrow> store" where
  "store_after sha256 fs s (Add_to_memory key value t) = snd (add_to_memory sha256 s key value t)"
| "store_after sha256 fs s (Get_from_memory key t) = snd (get_from_memory sha256 s key t)"
| "store_after sha256 fs s (Save_memory filename) = s"
| "store_after sha256 fs s (Load_memory filename) = snd (load_memory s filename fs)"

text \<open>The entry that \<^verbatim>\<open>add_to_memory\<close> writes.\<close>

definition new_entry :: "real \<Rightarrow> pyval \<Rightarrow> pyval" where
  "new_entry t value = PDict [(str ''timestamp'', PFloat t), (str ''data'', value)]"

text \<open>
  The calls that can take the entry of the digest \<open>h\<close> out of the store or replace it:
  a \<^verbatim>\<open>get_from_memory\<close> of a key with this digest, an \<^verbatim>\<open>add_to_memory\<close> of a key with
  this digest or one that leaves the dictionary over the limit, and every
  \<^verbatim>\<open>load_memory\<close>.
\<close>

fun can_remove :: "(nat list \<Rightarrow> pystr) \<Rightarrow> store \<Rightarrow> pystr \<Rightarrow> call \<Rightarrow> bool" where
  "can_remove sha256 s h (Add_to_memory key value t) =
     (case hash_key sha256 key of
        Inl _ \<Rightarrow> False
      | Inr h' \<Rightarrow>
          h' = h \<or>
          (case py_setitem (memory s) h' (new_entry t value) of
             Inl _ \<Rightarrow> False
           | Inr mem \<Rightarrow> (case py_len mem of Inl _ \<Rightarrow> False | Inr n \<Rightarrow> n > max_memory_size s)))"
| "can_remove sha256 s h (Get_from_memory key t) = (hash_key sha256 key = Inr h)"
| "can_remove sha256 s h (Save_memory filename) = False"
| "can_remove sha256 s h (Load_memory filename) = True"

text \<open>
  The time an entry was written as \<^verbatim>\<open>get_from_memory\<close> sees it: its \<^verbatim>\<open>"timestamp"\<close> as
  an operand of float arithmetic, when it is a number that float arithmetic accepts.
\<close>

definition entry_time :: "pyval \<Rightarrow> real option" where
  "entry_time entry =
     (case py_getitem entry (str ''timestamp'') of
        Inl _ \<Rightarrow> None
      | Inr t \<Rightarrow> (case py_float t of Inl _ \<Rightarrow> None | Inr r \<Rightarrow> Some r))"

text \<open>
  The time an item was written as \<^verbatim>\<open>sorted\<close> sees it: the numeric value of its
  \<^verbatim>\<open>"timestamp"\<close>, which \<^verbatim>\<open><\<close> compares exactly.
\<close>

definition written :: "pystr \<times> pyval \<Rightarrow> real" where
  "written item =
     (case py_getitem (snd item) (str ''timestamp'') of
        Inl _ \<Rightarrow> 0
      | Inr t \<Rightarrow> (case py_num t of None \<Rightarrow> 0 | Some r \<Rightarrow> r))"

text \<open>
  A well-formed store is what the class itself builds: a dictionary, its keys distinct
  as in every Python dictionary, each entry with a numeric \<^verbatim>\<open>"timestamp"\<close> and a
  \<^verbatim>\<open>"data"\<close>.
\<close>

definition well_formed_entry :: "pyval \<Rightarrow> bool" where
  "well_formed_entry entry \<longleftrightarrow>
     entry_time entry \<noteq> None \<and>
     (case py_getitem entry (str ''data'') of Inl _ \<Rightarrow> False | Inr _ \<Rightarrow> True)"

definition well_formed :: "store \<Rightarrow> bool" where
  "well_formed s \<longleftrightarrow>
     (case memory s of
        PDict mem \<Rightarrow> distinct (map fst mem) \<and> list_all (\<lambda>item. well_formed_entry (snd item)) mem
      | _ \<Rightarrow> False)"

text \<open>
  The items a dictionary over the limit loses: the first of its items in ascending
  order of timestamp, as many as it is over.
\<close>

definition evicted :: "int \<Rightarrow> (pystr \<times> pyval) list \<Rightarrow> (pystr \<times> pyval) list" where
  "evicted max_size mem = take (length mem - nat max_size) (sort_key written mem)"

text \<open>What is left of a dictionary over the limit, in its own order.\<close>

definition kept :: "int \<Rightarrow> (pystr \<times> pyval) list \<Rightarrow> (pystr \<times> pyval) list" where
  "kept max_size mem = filter (\<lambda>item. item \<notin> set (evicted max_size mem)) mem"

text \<open>An entry without a \<^verbatim>\<open>"timestamp"\<close> field.\<close>

definition lacks_timestamp :: "pyval \<Rightarrow> bool" where
  "lacks_timestamp entry \<longleftrightarrow>
     (case entry of PDict kvs \<Rightarrow> map_of kvs (str ''timestamp'') = None | _ \<Rightarrow> True)"




text \<open>
  The properties hold for every digest function. The concrete examples use this one,
  which returns the bytes as they are.
\<close>

definition plain_digest :: "nat list \<Rightarrow> pystr" where
  "plain_digest bytes = bytes"

text \<open>Tests on the kind of a value.\<close>

definition is_str :: "pyval \<Rightarrow> bool" where
  "is_str x \<longleftrightarrow> (case x of PStr _ \<Rightarrow> True | _ \<Rightarrow> False)"

definition is_dict :: "pyval \<Rightarrow> bool" where
  "is_dict x \<longleftrightarrow> (case x of PDict _ \<Rightarrow> True | _ \<Rightarrow> False)"

section \<open>Rounding\<close>

lemma round_half_even_of_int [simp]: "round_half_even (of_int k) = k"
  by (simp add: round_half_even_def)

lemma round_half_even_near: "\<bar>of_int (round_half_even x) - x\<bar> \<le> 1 / 2"
  unfolding round_half_even_def Let_def by (auto simp: abs_le_iff)

lemma round_half_even_mono:
  assumes "x \<le> y"
  shows "round_half_even x \<le> round_half_even y"
proof (rule ccontr)
  assume "\<not> ?thesis"
  then have gt: "round_half_even y + 1 \<le> round_half_even x" by simp
  from round_half_even_near [of x] have "of_int (round_half_even x) - 1 / 2 \<le> x" by linarith
  moreover from round_half_even_near [of y] have "y \<le> of_int (round_half_even y) + 1 / 2" by linarith
  moreover from gt have "real_of_int (round_half_even y) + 1 \<le> of_int (round_half_even x)"
    by (metis of_int_1 of_int_add of_int_le_iff)
  ultimately have "x = y" using assms by linarith
  with gt show False by simp
qed

lemma round_half_even_minus: "round_half_even (- x) = - round_half_even x"
proof (cases "x = of_int \<lfloor>x\<rfloor>")
  case True
  then obtain k where "x = of_int k" ..
  then have "- x = of_int (- k)" by simp
  then show ?thesis unfolding \<open>x = of_int k\<close> by (simp only: round_half_even_of_int)
next
  case False
  then have fl: "\<lfloor>- x\<rfloor> = - \<lfloor>x\<rfloor> - 1"
    by (metis ceiling_altdef ceiling_def diff_minus_eq_add minus_add_cancel uminus_add_conv_diff)
  have "of_int \<lfloor>x\<rfloor> < x" using False by (metis of_int_floor_le order_less_le)
  then show ?thesis
    unfolding round_half_even_def Let_def fl by (auto simp: algebra_simps)
qed

lemma exponent_bounds:
  assumes "0 < x"
  shows "2 powi exponent x \<le> x" and "x < 2 powi (exponent x + 1)"
proof -
  have "2 powi exponent x \<le> x \<and> x < 2 powi (exponent x + 1)"
  proof (cases "1 \<le> x")
    case True
    then have pos: "0 < \<lfloor>x\<rfloor>" by linarith
    define b where "b = bitlen \<lfloor>x\<rfloor>"
    from bitlen_bounds [OF pos] have lo: "2 ^ nat (b - 1) \<le> \<lfloor>x\<rfloor>" and hi: "\<lfloor>x\<rfloor> < 2 ^ nat b"
      by (simp_all add: b_def)
    have b1: "1 \<le> b" using pos bitlen_eq_zero_iff [of "\<lfloor>x\<rfloor>"] bitlen_nonneg [of "\<lfloor>x\<rfloor>"]
      unfolding b_def by linarith
    have e: "exponent x = b - 1" using True by (simp add: exponent_def b_def)
    have "real_of_int (2 ^ nat (b - 1)) \<le> of_int \<lfloor>x\<rfloor>" using lo by (simp only: of_int_le_iff)
    moreover have "real_of_int \<lfloor>x\<rfloor> \<le> x" by simp
    ultimately have "real_of_int (2 ^ nat (b - 1)) \<le> x" by (rule order_trans)
    then have 1: "2 powi (b - 1) \<le> x" using b1 by (simp add: power_int_def)
    from hi have "\<lfloor>x\<rfloor> + 1 \<le> 2 ^ nat b" by simp
    then have "real_of_int (\<lfloor>x\<rfloor> + 1) \<le> of_int (2 ^ nat b)" by (simp only: of_int_le_iff)
    moreover have "x < real_of_int (\<lfloor>x\<rfloor> + 1)" by simp
    ultimately have "x < real_of_int (2 ^ nat b)" by (rule less_le_trans [rotated])
    then have 2: "x < 2 powi b" using b1 by (simp add: power_int_def)
    from 1 2 show ?thesis by (simp add: e)
  next
    case False
    define y where "y = 1 / x"
    from False assms have y1: "1 < y" by (simp add: y_def)
    define m where "m = \<lceil>y\<rceil> - 1"
    from y1 have pos: "0 < m" unfolding m_def by linarith
    define k where "k = bitlen m"
    from bitlen_bounds [OF pos] have lo: "2 ^ nat (k - 1) \<le> m" and hi: "m < 2 ^ nat k"
      by (simp_all add: k_def)
    have k1: "1 \<le> k" using pos bitlen_eq_zero_iff [of m] bitlen_nonneg [of m]
      unfolding k_def by linarith
    have e: "exponent x = - k" using False by (simp add: exponent_def k_def m_def y_def)
    from hi have "m + 1 \<le> 2 ^ nat k" by simp
    then have "real_of_int (m + 1) \<le> of_int (2 ^ nat k)" by (simp only: of_int_le_iff)
    moreover have "y \<le> real_of_int (m + 1)" unfolding m_def by simp
    ultimately have "y \<le> real_of_int (2 ^ nat k)" by (rule order_trans [rotated])
    then have "y \<le> 2 ^ nat k" by simp
    then have "1 / 2 ^ nat k \<le> x" using assms
      by (simp add: y_def field_simps)
    then have 1: "2 powi (- k) \<le> x" using k1 by (simp add: power_int_def field_simps)
    have "real_of_int (2 ^ nat (k - 1)) \<le> of_int m" using lo by (simp only: of_int_le_iff)
    moreover have "real_of_int m < y" unfolding m_def by simp linarith
    ultimately have "real_of_int (2 ^ nat (k - 1)) < y" by (rule le_less_trans)
    then have "2 ^ nat (k - 1) < y" by simp
    then have "x < 1 / 2 ^ nat (k - 1)" using assms by (simp add: y_def field_simps)
    moreover have "2 powi (- k + 1) = (1::real) / 2 ^ nat (k - 1)"
      using k1 by (cases "k = 1") (simp_all add: power_int_def field_simps)
    ultimately have 2: "x < 2 powi (- k + 1)" by simp
    from 1 2 show ?thesis by (simp add: e)
  qed
  then show "2 powi exponent x \<le> x" and "x < 2 powi (exponent x + 1)" by simp_all
qed

lemma exponent_unique:
  assumes "2 powi e \<le> x" "x < 2 powi (e + 1)"
  shows "exponent x = e"
proof -
  have "0 < (2::real) powi e" by simp
  with assms have pos: "0 < x" by linarith
  note b = exponent_bounds [OF pos]
  have "(2::real) powi e < 2 powi (exponent x + 1)" using assms(1) b(2) by linarith
  then have 1: "e < exponent x + 1"
    by (metis not_less one_le_numeral power_int_increasing)
  have "(2::real) powi exponent x < 2 powi (e + 1)" using assms(2) b(1) by linarith
  then have 2: "exponent x < e + 1"
    by (metis not_less one_le_numeral power_int_increasing)
  from 1 2 show ?thesis by simp
qed

lemma exponent_mono:
  assumes "0 < x" "x \<le> y"
  shows "exponent x \<le> exponent y"
proof -
  from assms have "0 < y" by simp
  have "(2::real) powi exponent x < 2 powi (exponent y + 1)"
    using exponent_bounds(1) [OF assms(1)] exponent_bounds(2) [OF \<open>0 < y\<close>] assms(2) by linarith
  then have "exponent x < exponent y + 1"
    by (metis not_less one_le_numeral power_int_increasing)
  then show ?thesis by simp
qed

lemma quantum_pos [simp]: "0 < quantum x"
  by (simp add: quantum_def)

lemma quantum_minus [simp]: "quantum (- x) = quantum x"
  by (simp add: quantum_def)

lemma to_double_zero [simp]: "to_double 0 = 0"
  by (simp add: to_double_def)

lemma to_double_minus: "to_double (- x) = - to_double x"
  by (simp add: to_double_def round_half_even_minus)

lemma to_double_upper:
  assumes "0 < x"
  shows "to_double x \<le> 2 powi (max (exponent x) (- 1022) + 1)"
proof -
  define e where "e = max (exponent x) (- 1022)"
  have q: "quantum x = 2 powi (e - 52)" using assms by (simp add: quantum_def e_def)
  have "x < 2 powi (exponent x + 1)" by (rule exponent_bounds [OF assms])
  also have "\<dots> \<le> 2 powi (e + 1)" by (intro power_int_increasing) (simp_all add: e_def)
  finally have "x / quantum x < 2 powi (e + 1) / 2 powi (e - 52)"
    unfolding q by (simp add: divide_strict_right_mono)
  also have "(2::real) powi (e + 1) / 2 powi (e - 52) = 2 powi 53"
    by (simp flip: power_int_diff)
  finally have "x / quantum x \<le> of_int (2 ^ 53)" by simp
  then have "round_half_even (x / quantum x) \<le> round_half_even (of_int (2 ^ 53))"
    by (rule round_half_even_mono)
  then have "round_half_even (x / quantum x) \<le> 2 ^ 53" by (simp only: round_half_even_of_int)
  then have "real_of_int (round_half_even (x / quantum x)) \<le> 2 ^ 53"
    by (metis of_int_le_iff of_int_numeral of_int_power)
  then have "to_double x \<le> 2 ^ 53 * 2 powi (e - 52)"
    using assms by (simp add: to_double_def q mult_right_mono)
  also have "(2::real) ^ 53 * 2 powi (e - 52) = 2 powi (e + 1)"
    using power_int_add [of "2::real" 53 "e - 52"] by (simp add: add.commute)
  finally show ?thesis by (simp add: e_def)
qed

lemma to_double_lower:
  assumes "0 < x" "- 1022 \<le> exponent x"
  shows "2 powi exponent x \<le> to_double x"
proof -
  define e where "e = exponent x"
  have q: "quantum x = 2 powi (e - 52)" using assms by (simp add: quantum_def e_def max_def)
  have "2 powi e \<le> x" unfolding e_def by (rule exponent_bounds [OF assms(1)])
  then have "2 powi e / 2 powi (e - 52) \<le> x / quantum x"
    unfolding q by (simp add: divide_right_mono)
  moreover have "(2::real) powi e / 2 powi (e - 52) = 2 powi 52"
    by (simp flip: power_int_diff)
  ultimately have "of_int (2 ^ 52) \<le> x / quantum x" by simp
  then have "round_half_even (of_int (2 ^ 52)) \<le> round_half_even (x / quantum x)"
    by (rule round_half_even_mono)
  then have "2 ^ 52 \<le> round_half_even (x / quantum x)" by (simp only: round_half_even_of_int)
  then have "2 ^ 52 \<le> real_of_int (round_half_even (x / quantum x))"
    by (metis of_int_le_iff of_int_numeral of_int_power)
  then have "2 ^ 52 * 2 powi (e - 52) \<le> to_double x"
    using assms by (simp add: to_double_def q mult_right_mono)
  moreover have "(2::real) ^ 52 * 2 powi (e - 52) = 2 powi e"
    using power_int_add [of "2::real" 52 "e - 52"] by simp
  ultimately show ?thesis by (simp add: e_def)
qed

lemma to_double_nonneg:
  assumes "0 \<le> x"
  shows "0 \<le> to_double x"
proof (cases "x = 0")
  case False
  with assms have "0 \<le> x / quantum x" by (simp add: less_imp_le)
  then have "of_int 0 \<le> x / quantum x" by simp
  then have "round_half_even (of_int 0) \<le> round_half_even (x / quantum x)"
    by (rule round_half_even_mono)
  then have "0 \<le> round_half_even (x / quantum x)" by (simp only: round_half_even_of_int)
  with False show ?thesis by (simp add: to_double_def less_imp_le)
qed simp

lemma to_double_mono_pos:
  assumes "0 < x" "x \<le> y"
  shows "to_double x \<le> to_double y"
proof -
  from assms have y: "0 < y" by simp
  define ex where "ex = max (exponent x) (- 1022)"
  define ey where "ey = max (exponent y) (- 1022)"
  have le: "ex \<le> ey" using exponent_mono [OF assms] by (simp add: ex_def ey_def)
  show ?thesis
  proof (cases "ex = ey")
    case True
    then have q: "quantum x = quantum y" using assms y by (simp add: quantum_def ex_def ey_def)
    have "x / quantum y \<le> y / quantum y" using assms(2) by (simp add: divide_right_mono less_imp_le)
    then have "round_half_even (x / quantum y) \<le> round_half_even (y / quantum y)"
      by (rule round_half_even_mono)
    then show ?thesis using assms y by (simp add: to_double_def q mult_right_mono)
  next
    case False
    with le have lt: "ex + 1 \<le> ey" by simp
    then have ey: "ey = exponent y" "- 1022 \<le> exponent y"
      by (simp_all add: ex_def ey_def max_def split: if_splits)
    have "to_double x \<le> 2 powi (ex + 1)" unfolding ex_def by (rule to_double_upper [OF assms(1)])
    also have "\<dots> \<le> 2 powi ey" using lt by (intro power_int_increasing) simp_all
    also have "\<dots> \<le> to_double y" unfolding ey(1) by (rule to_double_lower [OF y ey(2)])
    finally show ?thesis .
  qed
qed

lemma to_double_mono:
  assumes "x \<le> y"
  shows "to_double x \<le> to_double y"
proof -
  consider "0 < x" | "x \<le> 0" "0 \<le> y" | "y < 0" using assms by linarith
  then show ?thesis
  proof cases
    case 1
    then show ?thesis using assms by (rule to_double_mono_pos)
  next
    case 2
    then have "0 \<le> to_double (- x)" "0 \<le> to_double y" by (simp_all add: to_double_nonneg)
    then show ?thesis by (simp add: to_double_minus)
  next
    case 3
    then have "to_double (- y) \<le> to_double (- x)" using assms by (intro to_double_mono_pos) simp_all
    then show ?thesis by (simp add: to_double_minus)
  qed
qed

lemma float_le_exact:
  assumes "is_double timeout" "x - y \<le> timeout"
  shows "float_le (float_sub x y) timeout"
proof -
  from assms(1) have "to_double timeout = timeout" "\<bar>timeout\<bar> < 2 ^ 1024"
    by (simp_all only: is_double_def)
  with to_double_mono [OF assms(2)] have "to_double (x - y) \<le> timeout" "timeout < 2 ^ 1024"
    by linarith+
  then show ?thesis by (simp add: float_sub_def float_result_def)
qed

lemma to_double_of_int:
  assumes "\<bar>i\<bar> < 2 ^ 53"
  shows "to_double (of_int i) = of_int i"
proof (cases "i = 0")
  case True
  then show ?thesis by simp
next
  case False
  then have pos: "0 < \<bar>i\<bar>" by simp
  define e where "e = bitlen \<bar>i\<bar> - 1"
  have "bitlen \<bar>i\<bar> \<le> 53" using assms by (simp add: bitlen_le_iff_power)
  moreover have "1 \<le> bitlen \<bar>i\<bar>"
    using pos bitlen_eq_zero_iff [of "\<bar>i\<bar>"] bitlen_nonneg [of "\<bar>i\<bar>"] by linarith
  ultimately have e: "0 \<le> e" "e \<le> 52" by (simp_all add: e_def)
  have "1 \<le> real_of_int \<bar>i\<bar>" using pos by (simp del: of_int_abs)
  then have "exponent (real_of_int \<bar>i\<bar>) = e"
    unfolding e_def exponent_def by (simp del: of_int_abs)
  then have ex: "exponent \<bar>real_of_int i\<bar> = e" by simp
  have q: "quantum (of_int i) = 1 / 2 ^ nat (52 - e)"
    using e by (auto simp: quantum_def ex max_def power_int_def field_simps)
  have "real_of_int i / (1 / 2 ^ nat (52 - e)) = of_int (i * 2 ^ nat (52 - e))" by simp
  then have "round_half_even (of_int i / quantum (of_int i)) = i * 2 ^ nat (52 - e)"
    unfolding q by (simp only: round_half_even_of_int)
  with False show ?thesis by (simp add: to_double_def q)
qed

lemma to_double_numeral [simp]:
  "numeral n < (9007199254740992::int) \<Longrightarrow> to_double (numeral n) = numeral n"
  "numeral n < (9007199254740992::int) \<Longrightarrow> to_double (- numeral n) = - numeral n"
  "to_double 1 = 1"
  using to_double_of_int [of "numeral n"] to_double_of_int [of "- numeral n"] to_double_of_int [of 1]
  by simp_all

lemma float_sub_self [simp]: "float_sub t t = Finite 0"
  by (simp add: float_sub_def float_result_def)

section \<open>Dictionaries, the sort and the loop\<close>

lemma field_names_differ:
  "str ''timestamp'' \<noteq> str ''data''" "str ''data'' \<noteq> str ''timestamp''"
  by (simp_all add: str_def)

lemma map_of_dict_set: "map_of (dict_set k v m) = (map_of m)(k \<mapsto> v)"
  by (induction m) (auto simp: fun_eq_iff)

lemma length_dict_set:
  "length (dict_set k v m) = (if map_of m k = None then Suc (length m) else length m)"
  by (induction m) auto

lemma keys_dict_set: "fst ` set (dict_set k v m) = insert k (fst ` set m)"
  by (simp add: dom_map_of_conv_image_fst [symmetric] map_of_dict_set)

lemma distinct_dict_set: "distinct (map fst m) \<Longrightarrow> distinct (map fst (dict_set k v m))"
  by (induction m) (auto simp: keys_dict_set)

lemma dict_set_split:
  "\<exists>xs zs. dict_set k v m = xs @ (k, v) # zs \<and> set xs \<union> set zs = {x \<in> set m. fst x \<noteq> k} \<and>
     (map_of m k = None \<longrightarrow> zs = [] \<and> xs = m)"
  if "distinct (map fst m)"
  using that
proof (induction m)
  case Nil
  then show ?case by simp
next
  case (Cons a m)
  show ?case
  proof (cases "fst a = k")
    case True
    with Cons.prems have "dict_set k v (a # m) = [] @ (k, v) # m" "set m = {x \<in> set (a # m). fst x \<noteq> k}"
      by (cases a; force)+
    with True show ?thesis by (cases a) fastforce
  next
    case False
    from Cons obtain xs zs where *: "dict_set k v m = xs @ (k, v) # zs"
      "set xs \<union> set zs = {x \<in> set m. fst x \<noteq> k}" "map_of m k = None \<longrightarrow> zs = [] \<and> xs = m"
      by auto
    with False have 1: "dict_set k v (a # m) = (a # xs) @ (k, v) # zs" by (cases a) auto
    from False * have 2: "set (a # xs) \<union> set zs = {x \<in> set (a # m). fst x \<noteq> k}" by auto
    from False * have 3: "map_of (a # m) k = None \<longrightarrow> zs = [] \<and> a # xs = a # m" by (cases a) auto
    show ?thesis
      by (rule exI [of _ "a # xs"], rule exI [of _ zs]) (use 1 2 3 in blast)
  qed
qed

lemma length_dict_delete:
  "map_of m k \<noteq> None \<Longrightarrow> Suc (length (dict_delete k m)) = length m"
  by (induction m) (auto split: if_splits)

lemma dict_delete_filter:
  "distinct (map fst m) \<Longrightarrow> (k, v) \<in> set m \<Longrightarrow> dict_delete k m = filter (\<lambda>x. x \<noteq> (k, v)) m"
proof (induction m)
  case Nil
  then show ?case by simp
next
  case (Cons a m)
  then show ?case
    by (cases a) (force intro: filter_True [symmetric])
qed

lemma map_of_dict_delete_other: "k' \<noteq> k \<Longrightarrow> map_of (dict_delete k m) k' = map_of m k'"
  by (induction m) auto

lemma map_of_dict_delete_same: "distinct (map fst m) \<Longrightarrow> map_of (dict_delete k m) k = None"
proof (induction m)
  case Nil
  then show ?case by simp
next
  case (Cons a m)
  show ?case
  proof (cases "fst a = k")
    case True
    with Cons.prems have "k \<notin> fst ` set m" by auto
    then have "map_of m k = None" by (simp add: map_of_eq_None_iff)
    with True show ?thesis by (cases a) simp
  next
    case False
    with Cons show ?thesis by (cases a) simp
  qed
qed

lemma prune_loop_bound:
  "prune_loop c mem srt = (Inr (), mem') \<Longrightarrow> int (length mem') \<le> c"
proof (induction c mem srt rule: prune_loop.induct)
  case (1 c mem srt)
  show ?case
  proof (cases "int (length mem) > c")
    case False
    with "1.prems" show ?thesis by (simp add: prune_loop.simps)
  next
    case True
    with "1.prems" obtain k e rest v where "srt = (k, e) # rest" "map_of mem k = Some v"
      "prune_loop c (dict_delete k mem) rest = (Inr (), mem')"
      by (subst (asm) prune_loop.simps) (auto split: list.splits option.splits)
    with True "1.IH" show ?thesis by simp
  qed
qed

lemma prune_loop_exact:
  "prune_loop c mem srt = (Inr (), mem') \<Longrightarrow> c \<le> int (length mem) \<Longrightarrow> int (length mem') = c"
proof (induction c mem srt rule: prune_loop.induct)
  case (1 c mem srt)
  show ?case
  proof (cases "int (length mem) > c")
    case False
    with "1.prems" show ?thesis by (simp add: prune_loop.simps)
  next
    case True
    with "1.prems" obtain k e rest v where *: "srt = (k, e) # rest" "map_of mem k = Some v"
      "prune_loop c (dict_delete k mem) rest = (Inr (), mem')"
      by (subst (asm) prune_loop.simps) (auto split: list.splits option.splits)
    from * True have "c \<le> int (length (dict_delete k mem))"
      using length_dict_delete [of mem k] by simp
    with True * "1.IH" show ?thesis by simp
  qed
qed


lemma py_float_num: "py_float x = Inr r \<Longrightarrow> \<exists>r'. py_num x = Some r'"
  by (cases x) (auto split: if_splits)

lemma py_lt_num:
  "py_num a = Some x \<Longrightarrow> py_num b = Some y \<Longrightarrow> py_lt a b = Inr (x < y)"
  by (cases a; cases b) simp_all

lemma timestamps_well_formed:
  "list_all (\<lambda>item. well_formed_entry (snd item)) mem \<Longrightarrow>
     \<exists>ts. timestamps mem = Inr ts \<and> length ts = length mem \<and>
       (\<forall>p \<in> set (zip ts mem). py_num (fst p) = Some (written (snd p)))"
proof (induction mem)
  case Nil
  then show ?case by simp
next
  case (Cons a mem)
  then obtain ts where ts: "timestamps mem = Inr ts" "length ts = length mem"
    "\<forall>p \<in> set (zip ts mem). py_num (fst p) = Some (written (snd p))"
    by auto
  from Cons.prems obtain t r where t0: "py_getitem (snd a) (str ''timestamp'') = Inr t"
    "py_float t = Inr r"
    by (auto simp: well_formed_entry_def entry_time_def split: sum.splits)
  from py_float_num [OF t0(2)] obtain r' where "py_num t = Some r'" ..
  with t0 have t: "py_getitem (snd a) (str ''timestamp'') = Inr t" "py_num t = Some (written a)"
    by (simp_all add: written_def)
  with t ts have "timestamps (a # mem) = Inr (t # ts)" "length (t # ts) = length (a # mem)"
    "\<forall>p \<in> set (zip (t # ts) (a # mem)). py_num (fst p) = Some (written (snd p))"
    by (cases a; auto)+
  then show ?case by blast
qed

lemma py_insort_numeric:
  "\<forall>p \<in> set (x # ys). py_num (fst p) = Some (written (snd p)) \<Longrightarrow>
     map snd (py_insort x ys) = insort_key written (snd x) (map snd ys) \<and>
     set (py_insort x ys) = set (x # ys)"
  by (induction ys) (auto simp: py_lt_num)

lemma py_sort_numeric:
  "\<forall>p \<in> set ps. py_num (fst p) = Some (written (snd p)) \<Longrightarrow>
     map snd (foldr py_insort ps []) = sort_key written (map snd ps) \<and>
     set (foldr py_insort ps []) = set ps"
proof (induction ps)
  case Nil
  then show ?case by simp
next
  case (Cons p ps)
  then have IH: "map snd (foldr py_insort ps []) = sort_key written (map snd ps)"
    "set (foldr py_insort ps []) = set ps" by auto
  with Cons.prems have "\<forall>q \<in> set (p # foldr py_insort ps []). py_num (fst q) = Some (written (snd q))"
    by auto
  from py_insort_numeric [OF this] IH show ?case by simp
qed

lemma comparable_numeric:
  assumes "\<forall>t \<in> set ts. py_num t \<noteq> None"
  shows "comparable ts"
  unfolding comparable_def list_all_iff
proof (intro ballI)
  fix a b
  assume ab: "a \<in> set ts" "b \<in> set ts"
  from ab(1) assms have "\<exists>x. py_num a = Some x" by auto
  moreover from ab(2) assms have "\<exists>x. py_num b = Some x" by auto
  ultimately obtain x y where "py_num a = Some x" "py_num b = Some y" by auto
  then show "py_lt a b \<noteq> Inl TypeError" by (simp add: py_lt_num)
qed

lemma py_sorted_well_formed:
  assumes "list_all (\<lambda>item. well_formed_entry (snd item)) mem"
  shows "py_sorted mem = Inr (sort_key written mem)"
proof -
  from timestamps_well_formed [OF assms] obtain ts where ts: "timestamps mem = Inr ts"
    "length ts = length mem" "\<forall>p \<in> set (zip ts mem). py_num (fst p) = Some (written (snd p))"
    by auto
  have "\<forall>t \<in> set ts. py_num t \<noteq> None"
  proof
    fix t assume "t \<in> set ts"
    with ts(2) obtain x where "(t, x) \<in> set (zip ts mem)"
      by (metis in_set_impl_in_set_zip1)
    with ts(3) show "py_num t \<noteq> None" by force
  qed
  then have "comparable ts" by (rule comparable_numeric)
  moreover from py_sort_numeric [OF ts(3)] ts(2)
  have "map snd (foldr py_insort (zip ts mem) []) = sort_key written mem" by simp
  ultimately show ?thesis using ts(1) by (simp add: py_sorted_def)
qed

lemma prune_loop_evicts:
  assumes "set srt = set mem" "distinct (map fst mem)" "distinct (map fst srt)" "0 \<le> c"
  shows "prune_loop c mem srt =
    (Inr (), filter (\<lambda>x. x \<notin> set (take (length mem - nat c) srt)) mem)"
  using assms
proof (induction c mem srt rule: prune_loop.induct)
  case (1 c mem srt)
  show ?case
  proof (cases "int (length mem) > c")
    case False
    then show ?thesis by (simp add: prune_loop.simps)
  next
    case True
    with "1.prems" have "mem \<noteq> []" by auto
    with "1.prems" obtain k e rest where srt: "srt = (k, e) # rest" by (cases srt) auto
    with "1.prems" have mem: "(k, e) \<in> set mem" "map_of mem k = Some e" by auto
    have del: "dict_delete k mem = filter (\<lambda>x. x \<noteq> (k, e)) mem"
      using "1.prems" mem by (simp add: dict_delete_filter)
    have "(k, e) \<notin> set rest" using "1.prems" srt by (auto simp: image_iff)
    with "1.prems" srt del have "set rest = set (dict_delete k mem)" by auto
    moreover have "distinct (map fst (dict_delete k mem))"
      using "1.prems" del by (simp add: distinct_map_filter)
    moreover have "distinct (map fst rest)" using "1.prems" srt by simp
    ultimately have "prune_loop c (dict_delete k mem) rest =
      (Inr (), filter (\<lambda>x. x \<notin> set (take (length (dict_delete k mem) - nat c) rest)) (dict_delete k mem))"
      using "1.IH" [OF True srt refl mem(2)] "1.prems" by simp
    moreover from True "1.prems" obtain d where d: "length mem - nat c = Suc d" "length (dict_delete k mem) - nat c = d"
      using length_dict_delete [of mem k] mem by (cases "length mem - nat c") auto
    ultimately show ?thesis
      using True srt mem del
      by (subst prune_loop.simps) (auto simp: d intro: filter_cong)
  qed
qed


lemma set_dict_set: "set (dict_set k v m) \<subseteq> insert (k, v) (set m)"
  by (induction m) (auto split: if_splits)

lemma py_setitem_Inr:
  "py_setitem c k v = Inr c' \<Longrightarrow> \<exists>m. c = PDict m \<and> c' = PDict (dict_set k v m)"
  by (cases c) auto

lemma new_entry_fields:
  "py_getitem (new_entry t v) (str ''timestamp'') = Inr (PFloat t)"
  "py_getitem (new_entry t v) (str ''data'') = Inr v"
  using field_names_differ by (simp_all add: new_entry_def)

lemma new_entry_well_formed: "well_formed_entry (new_entry t v)"
  by (simp add: well_formed_entry_def entry_time_def new_entry_fields)

lemma written_new_entry: "written (k, new_entry t v) = t"
  by (simp add: written_def new_entry_fields)

lemma distinct_keys_sort:
  "distinct (map fst (sort_key f m)) = distinct (map fst m)"
  by (simp add: distinct_map)

lemma prune_memory_well_formed:
  assumes "memory s = PDict m" "distinct (map fst m)"
    "list_all (\<lambda>item. well_formed_entry (snd item)) m" "0 \<le> max_memory_size s"
  shows "prune_memory s =
    (Inr (), s\<lparr>memory := PDict (filter (\<lambda>x. x \<notin> set (evicted (max_memory_size s) m)) m)\<rparr>)"
proof -
  have "prune_loop (max_memory_size s) m (sort_key written m) =
    (Inr (), filter (\<lambda>x. x \<notin> set (evicted (max_memory_size s) m)) m)"
    unfolding evicted_def using assms
    by (intro prune_loop_evicts) (simp_all add: distinct_keys_sort)
  with assms show ?thesis
    by (simp add: prune_memory_def py_sorted_well_formed)
qed

lemma add_to_memory_well_formed:
  fixes t :: real and v :: pyval
  assumes wf: "well_formed s" and m: "memory s = PDict m"
    and h: "hash_key sha256 key = Inr h" and c: "0 \<le> max_memory_size s"
  defines "m1 \<equiv> dict_set h (new_entry t v) m"
  shows "add_to_memory sha256 s key v t =
    (Inr (), s\<lparr>memory := PDict (filter (\<lambda>x. x \<notin> set (evicted (max_memory_size s) m1)) m1)\<rparr>)"
proof -
  from wf m have d: "distinct (map fst m)" and e: "list_all (\<lambda>item. well_formed_entry (snd item)) m"
    by (simp_all add: well_formed_def)
  have d1: "distinct (map fst m1)" using d by (simp add: m1_def distinct_dict_set)
  have e1: "list_all (\<lambda>item. well_formed_entry (snd item)) m1"
    using e set_dict_set [of h "new_entry t v" m]
    by (auto simp: m1_def list_all_iff new_entry_well_formed)
  let ?s1 = "s\<lparr>memory := PDict m1\<rparr>"
  show ?thesis
  proof (cases "int (length m1) > max_memory_size s")
    case True
    have "prune_memory ?s1 =
      (Inr (), ?s1\<lparr>memory := PDict (filter (\<lambda>x. x \<notin> set (evicted (max_memory_size ?s1) m1)) m1)\<rparr>)"
      using d1 e1 c by (intro prune_memory_well_formed) simp_all
    with True m h show ?thesis
      by (simp add: add_to_memory_def m1_def new_entry_def)
  next
    case False
    then have "evicted (max_memory_size s) m1 = []" by (simp add: evicted_def)
    with False m h show ?thesis
      by (simp add: add_to_memory_def m1_def new_entry_def)
  qed
qed

lemma add_to_memory_negative:
  assumes "max_memory_size s < 0" "add_to_memory sha256 s key v t = (r, s')"
  shows "r \<noteq> Inr ()"
proof
  assume r: "r = Inr ()"
  with assms(2) obtain h m where h: "hash_key sha256 key = Inr h" and m: "memory s = PDict m"
    by (auto simp: add_to_memory_def split: sum.splits dest: py_setitem_Inr)
  let ?m1 = "dict_set h (PDict [(str ''timestamp'', PFloat t), (str ''data'', v)]) m"
  from assms(1) have "int (length ?m1) > max_memory_size s" by simp
  with assms(2) r h m obtain srt mem' where
    "prune_loop (max_memory_size s) ?m1 srt = (Inr (), mem')"
    by (auto simp: add_to_memory_def prune_memory_def split: sum.splits prod.splits)
  from prune_loop_bound [OF this] assms(1) show False by simp
qed

section \<open>Reading and writing an entry\<close>

lemma entry_time_Some:
  "entry_time entry = Some t0 \<Longrightarrow>
     \<exists>t. py_getitem entry (str ''timestamp'') = Inr t \<and> py_float t = Inr t0"
  by (auto simp: entry_time_def split: sum.splits)

lemma get_live:
  assumes "memory s = PDict m" "hash_key sha256 key = Inr h" "map_of m h = Some entry"
    "entry_time entry = Some t0" "py_getitem entry (str ''data'') = Inr v"
    "float_le (float_sub t t0) (memory_timeout s)"
  shows "get_from_memory sha256 s key t = (Inr v, s)"
  using assms entry_time_Some [OF assms(4)]
  by (auto simp: get_from_memory_def py_sub_def)

lemma get_expired:
  assumes "memory s = PDict m" "hash_key sha256 key = Inr h" "map_of m h = Some entry"
    "entry_time entry = Some t0" "\<not> float_le (float_sub t t0) (memory_timeout s)"
  shows "get_from_memory sha256 s key t = (Inr PNone, s\<lparr>memory := PDict (dict_delete h m)\<rparr>)"
  using assms entry_time_Some [OF assms(4)]
  by (auto simp: get_from_memory_def py_sub_def)

lemma get_absent:
  assumes "memory s = PDict m" "hash_key sha256 key = Inr h" "map_of m h = None"
  shows "get_from_memory sha256 s key t = (Inr PNone, s)"
  using assms by (simp add: get_from_memory_def)

lemma get_memory_after:
  "memory (snd (get_from_memory sha256 s key t)) = memory s \<or>
   (\<exists>h m. hash_key sha256 key = Inr h \<and> memory s = PDict m \<and>
      memory (snd (get_from_memory sha256 s key t)) = PDict (dict_delete h m))"
proof (cases "memory s")
  case (PDict m)
  then show ?thesis
    by (auto simp: get_from_memory_def split: sum.splits bool.splits option.splits)
qed (auto simp: get_from_memory_def split: sum.splits bool.splits)

lemma hash_key_not_str: "\<not> is_str key \<Longrightarrow> hash_key sha256 key = Inl AttributeError"
  by (cases key) (simp_all add: hash_key_def is_str_def)

lemma hash_key_str:
  "\<not> list_ex is_surrogate k \<Longrightarrow> hash_key sha256 (PStr k) = Inr (sha256 (concat (map utf8_char k)))"
  by (simp add: hash_key_def encode_def)

lemma add_to_memory_Inr:
  assumes "add_to_memory sha256 s key v t = (Inr (), s')"
  obtains h m where "hash_key sha256 key = Inr h" "memory s = PDict m"
proof -
  from assms obtain h c where h: "hash_key sha256 key = Inr h"
    and "py_setitem (memory s) h (PDict [(str ''timestamp'', PFloat t), (str ''data'', v)]) = Inr c"
    by (auto simp: add_to_memory_def split: sum.splits)
  with that show thesis by (auto dest: py_setitem_Inr)
qed

lemma add_to_memory_unfold:
  assumes "hash_key sha256 key = Inr h" "memory s = PDict m"
  shows "add_to_memory sha256 s key v t =
    (if max_memory_size s < int (length (dict_set h (new_entry t v) m))
     then prune_memory (s\<lparr>memory := PDict (dict_set h (new_entry t v) m)\<rparr>)
     else (Inr (), s\<lparr>memory := PDict (dict_set h (new_entry t v) m)\<rparr>))"
  using assms by (simp add: add_to_memory_def new_entry_def)

lemma prune_memory_Inr:
  assumes "prune_memory s = (Inr (), s')" "memory s = PDict m"
  obtains srt m' where "prune_loop (max_memory_size s) m srt = (Inr (), m')"
    "s' = s\<lparr>memory := PDict m'\<rparr>"
  using assms by (auto simp: prune_memory_def split: sum.splits prod.splits)

lemma add_to_memory_bound:
  assumes "add_to_memory sha256 s key v t = (Inr (), s')"
  shows "\<exists>m'. memory s' = PDict m' \<and> int (length m') \<le> max_memory_size s \<and>
    max_memory_size s' = max_memory_size s"
proof -
  from assms obtain h m where h: "hash_key sha256 key = Inr h" and m: "memory s = PDict m"
    by (rule add_to_memory_Inr)
  let ?m1 = "dict_set h (new_entry t v) m"
  show ?thesis
  proof (cases "max_memory_size s < int (length ?m1)")
    case True
    with assms h m have "prune_memory (s\<lparr>memory := PDict ?m1\<rparr>) = (Inr (), s')"
      by (simp add: add_to_memory_unfold)
    then obtain srt m' where "prune_loop (max_memory_size s) ?m1 srt = (Inr (), m')"
      "s' = s\<lparr>memory := PDict m'\<rparr>"
      by (rule prune_memory_Inr [where m = ?m1]) simp_all
    with prune_loop_bound [OF this(1)] show ?thesis by simp
  next
    case False
    with assms h m show ?thesis by (auto simp: add_to_memory_unfold)
  qed
qed

lemma add_to_memory_exact:
  assumes "add_to_memory sha256 s key v t = (Inr (), s')" "hash_key sha256 key = Inr h"
    "memory s = PDict m" "max_memory_size s < int (length (dict_set h (new_entry t v) m))"
  shows "\<exists>m'. memory s' = PDict m' \<and> int (length m') = max_memory_size s"
proof -
  let ?m1 = "dict_set h (new_entry t v) m"
  from assms have "prune_memory (s\<lparr>memory := PDict ?m1\<rparr>) = (Inr (), s')"
    by (simp add: add_to_memory_unfold)
  then obtain srt m' where *: "prune_loop (max_memory_size s) ?m1 srt = (Inr (), m')"
    "s' = s\<lparr>memory := PDict m'\<rparr>"
    by (rule prune_memory_Inr [where m = ?m1]) simp_all
  from prune_loop_exact [OF *(1)] assms(4) * show ?thesis by simp
qed

lemma add_all_bound:
  "calls \<noteq> [] \<Longrightarrow> add_all sha256 s calls = (Inr (), s') \<Longrightarrow>
     \<exists>m'. memory s' = PDict m' \<and> int (length m') \<le> max_memory_size s \<and>
       max_memory_size s' = max_memory_size s"
proof (induction calls arbitrary: s)
  case Nil
  then show ?case by simp
next
  case (Cons c calls)
  obtain key v t where c: "c = (key, v, t)" by (cases c)
  with Cons.prems obtain s1 where s1: "add_to_memory sha256 s key v t = (Inr (), s1)"
    "add_all sha256 s1 calls = (Inr (), s')"
    by (auto split: prod.splits sum.splits)
  from add_to_memory_bound [OF s1(1)] have cap: "max_memory_size s1 = max_memory_size s" by auto
  show ?case
  proof (cases "calls = []")
    case True
    with s1 add_to_memory_bound [OF s1(1)] show ?thesis by simp
  next
    case False
    from Cons.IH [OF False s1(2)] cap show ?thesis by simp
  qed
qed

lemma insort_key_snoc:
  "f a \<le> f x \<Longrightarrow> insort_key f a (ys @ [x]) = insort_key f a ys @ [x]"
  by (induction ys) auto

lemma insort_key_last:
  "\<forall>y \<in> set ys. f y < f x \<Longrightarrow> insort_key f x ys = ys @ [x]"
  by (induction ys) auto

lemma sort_key_last:
  "\<forall>y \<in> set xs. f y \<le> f a \<Longrightarrow> \<forall>z \<in> set zs. f z < f a \<Longrightarrow>
     sort_key f (xs @ a # zs) = sort_key f (xs @ zs) @ [a]"
  by (induction xs) (simp_all add: insort_key_last insort_key_snoc)

lemma sorted_take_le_rest:
  assumes "sorted (map f ys)" "x \<in> set (take n ys)" "y \<in> set ys" "y \<notin> set (take n ys)"
  shows "f x \<le> f y"
proof -
  from assms(3,4) have "y \<in> set (drop n ys)"
    using append_take_drop_id [of n ys] by (metis Un_iff set_append)
  moreover from assms(1) have "sorted (map f (take n ys) @ map f (drop n ys))"
    by (simp flip: map_append)
  ultimately show ?thesis using assms(2) by (auto simp: sorted_append)
qed

lemma new_item_survives:
  fixes t :: real
  assumes d: "distinct (map fst m)" and c: "1 \<le> c"
    and old: "(\<forall>x \<in> set m. fst x \<noteq> h \<longrightarrow> written x < t) \<or>
      (int (length m) \<le> c \<and> (\<forall>x \<in> set m. fst x \<noteq> h \<longrightarrow> written x \<le> t))"
  shows "(h, new_entry t v) \<notin> set (evicted c (dict_set h (new_entry t v) m))"
proof (cases "int (length (dict_set h (new_entry t v) m)) \<le> c")
  case True
  then show ?thesis by (simp add: evicted_def)
next
  case False
  let ?new = "(h, new_entry t v)"
  obtain xs zs where split0: "dict_set h (new_entry t v) m = xs @ ?new # zs \<and>
      set xs \<union> set zs = {x \<in> set m. fst x \<noteq> h} \<and>
      (map_of m h = None \<longrightarrow> zs = [] \<and> xs = m)"
    using dict_set_split [OF d, of h "new_entry t v"] by (elim exE) (rule that)
  note split = split0 [THEN conjunct1] split0 [THEN conjunct2, THEN conjunct1]
    split0 [THEN conjunct2, THEN conjunct2]
  have w: "written ?new = t" by (rule written_new_entry)
  have "(\<forall>x \<in> set xs. written x \<le> written ?new) \<and> (\<forall>z \<in> set zs. written z < written ?new)"
    using old
  proof
    assume "\<forall>x \<in> set m. fst x \<noteq> h \<longrightarrow> written x < t"
    with split(2) w show ?thesis by fastforce
  next
    assume b: "int (length m) \<le> c \<and> (\<forall>x \<in> set m. fst x \<noteq> h \<longrightarrow> written x \<le> t)"
    with False have "map_of m h = None" by (auto simp: length_dict_set split: if_splits)
    with split(3) have "zs = []" "xs = m" by simp_all
    with b split(2) w show ?thesis by fastforce
  qed
  then have srt: "sort_key written (xs @ ?new # zs) = sort_key written (xs @ zs) @ [?new]"
    by (intro sort_key_last) simp_all
  have "distinct (map fst (xs @ ?new # zs))"
    using distinct_dict_set [OF d, of h "new_entry t v"] split(1) by simp
  then have "?new \<notin> set (xs @ zs)" by (auto simp: image_iff)
  then have "?new \<notin> set (take n (sort_key written (xs @ zs)))" for n
    by (auto dest: in_set_takeD)
  moreover have "length (xs @ ?new # zs) - nat c \<le> length (sort_key written (xs @ zs))"
    using c by simp
  ultimately show ?thesis
    by (simp add: evicted_def split(1) srt del: sort_key_simps)
qed

lemma evicted_older:
  assumes "x \<in> set (evicted c mem)" "y \<in> set (kept c mem)"
  shows "written x \<le> written y"
proof -
  from assms(2) have "y \<in> set (sort_key written mem)"
    "y \<notin> set (take (length mem - nat c) (sort_key written mem))"
    by (simp_all add: kept_def evicted_def)
  with assms(1) show ?thesis
    unfolding evicted_def
    by (intro sorted_take_le_rest [where ys = "sort_key written mem" and n = "length mem - nat c"])
      simp_all
qed

lemma three_puts:
  assumes "hash_key sha256 a = Inr ha" "hash_key sha256 b = Inr hb" "hash_key sha256 c = Inr hc"
    "ha \<noteq> hb" "ha \<noteq> hc" "hb \<noteq> hc" "ta < tb" "tb < tc"
  shows "add_all sha256 (init ttl 2) [(a, va, ta), (b, vb, tb), (c, vc, tc)] =
    (Inr (), \<lparr>memory = PDict [(hb, new_entry tb vb), (hc, new_entry tc vc)],
       memory_timeout = ttl, max_memory_size = 2\<rparr>)"
proof -
  have 1: "add_to_memory sha256 (init ttl 2) a va ta =
    (Inr (), \<lparr>memory = PDict [(ha, new_entry ta va)], memory_timeout = ttl, max_memory_size = 2\<rparr>)"
    using assms(1) by (simp add: add_to_memory_def init_def new_entry_def)
  have 2: "add_to_memory sha256
      \<lparr>memory = PDict [(ha, new_entry ta va)], memory_timeout = ttl, max_memory_size = 2\<rparr> b vb tb =
    (Inr (), \<lparr>memory = PDict [(ha, new_entry ta va), (hb, new_entry tb vb)],
       memory_timeout = ttl, max_memory_size = 2\<rparr>)"
    using assms(2,4) by (simp add: add_to_memory_def new_entry_def)
  have 3: "add_to_memory sha256
      \<lparr>memory = PDict [(ha, new_entry ta va), (hb, new_entry tb vb)],
        memory_timeout = ttl, max_memory_size = 2\<rparr> c vc tc =
    (Inr (), \<lparr>memory = PDict [(hb, new_entry tb vb), (hc, new_entry tc vc)],
       memory_timeout = ttl, max_memory_size = 2\<rparr>)"
    using assms(3-8)
    by (simp add: add_to_memory_def new_entry_def prune_memory_def py_sorted_def comparable_def
        prune_loop.simps field_names_differ)
  from 1 2 3 show ?thesis by simp
qed

section \<open>JSON and back\<close>

lemma int_has_str_small [simp]: "\<bar>i\<bar> \<le> 10 ^ 18 \<Longrightarrow> int_has_str i"
proof -
  assume "\<bar>i\<bar> \<le> 10 ^ 18"
  also have "(10::int) ^ 18 < 10 ^ max_str_digits"
    unfolding max_str_digits_def by (rule power_strict_increasing) simp_all
  finally show ?thesis by (simp add: int_has_str_def)
qed











text \<open>The definitions a concrete run unfolds.\<close>

lemmas run_defs = add_to_memory_def get_from_memory_def prune_memory_def py_sorted_def
  hash_key_def encode_def is_surrogate_def utf8_char_def plain_digest_def init_def
  comparable_def py_sub_def float_sub_def float_result_def prune_loop.simps new_entry_def
  store_after.simps can_remove.simps


lemmas notion_defs = well_formed_def well_formed_entry_def entry_time_def written_def
  evicted_def kept_def lacks_timestamp_def is_str_def is_dict_def

section \<open>Properties of the store\<close>

text \<open>
  C1: right after \<^verbatim>\<open>add_to_memory(key, value)\<close> has returned, \<^verbatim>\<open>get_from_memory(key)\<close> at
  the same time returns \<open>value\<close>, when the store is a dictionary, the key hashes, the
  timeout is not negative, and either the dictionary is within the limit after the
  assignment, so that nothing is evicted, or the store is well formed, the limit is at
  least one entry, and every other entry was written before the call, or not after it
  when the store was within its limit before the call. Then the call does return.
\<close>

theorem get_after_put:
  assumes "memory s = PDict m" "hash_key sha256 key = Inr h" "0 \<le> memory_timeout s"
    "int (length (dict_set h (new_entry t v) m)) \<le> max_memory_size s \<or>
     well_formed s \<and> 1 \<le> max_memory_size s \<and>
       ((\<forall>x \<in> set m. fst x \<noteq> h \<longrightarrow> written x < t) \<or>
        (int (length m) \<le> max_memory_size s \<and> (\<forall>x \<in> set m. fst x \<noteq> h \<longrightarrow> written x \<le> t)))"
  shows "fst (add_to_memory sha256 s key v t) = Inr () \<and>
    fst (get_from_memory sha256 (snd (add_to_memory sha256 s key v t)) key t) = Inr v"
proof -
  let ?new = "(h, new_entry t v)"
  let ?m1 = "dict_set h (new_entry t v) m"
  let ?m2 = "filter (\<lambda>x. x \<notin> set (evicted (max_memory_size s) ?m1)) ?m1"
  have time: "entry_time (new_entry t v) = Some t"
    by (simp add: entry_time_def new_entry_fields)
  have live: "get_from_memory sha256 (s\<lparr>memory := PDict m'\<rparr>) key t = (Inr v, s\<lparr>memory := PDict m'\<rparr>)"
    if look: "map_of m' h = Some (new_entry t v)" for m'
  proof -
    have mem: "memory (s\<lparr>memory := PDict m'\<rparr>) = PDict m'" by simp
    have age: "float_le (float_sub t t) (memory_timeout (s\<lparr>memory := PDict m'\<rparr>))"
      using assms(3) by simp
    show ?thesis
      by (rule get_live [OF mem assms(2) look time new_entry_fields(2) age])
  qed
  from assms(4) show ?thesis
  proof
    assume "int (length ?m1) \<le> max_memory_size s"
    with assms(1,2) have put: "add_to_memory sha256 s key v t = (Inr (), s\<lparr>memory := PDict ?m1\<rparr>)"
      by (simp add: add_to_memory_unfold)
    have "map_of ?m1 h = Some (new_entry t v)" by (simp add: map_of_dict_set)
    from live [OF this] put show ?thesis by simp
  next
    assume b: "well_formed s \<and> 1 \<le> max_memory_size s \<and>
       ((\<forall>x \<in> set m. fst x \<noteq> h \<longrightarrow> written x < t) \<or>
        (int (length m) \<le> max_memory_size s \<and> (\<forall>x \<in> set m. fst x \<noteq> h \<longrightarrow> written x \<le> t)))"
    with assms(1) have d: "distinct (map fst m)" by (simp add: well_formed_def)
    from b assms(1,2) have put: "add_to_memory sha256 s key v t = (Inr (), s\<lparr>memory := PDict ?m2\<rparr>)"
      by (intro add_to_memory_well_formed) simp_all
    from b have c: "1 \<le> max_memory_size s"
      and old: "(\<forall>x \<in> set m. fst x \<noteq> h \<longrightarrow> written x < t) \<or>
        (int (length m) \<le> max_memory_size s \<and> (\<forall>x \<in> set m. fst x \<noteq> h \<longrightarrow> written x \<le> t))"
      by simp_all
    have "?new \<notin> set (evicted (max_memory_size s) ?m1)"
      using d c old by (rule new_item_survives)
    moreover have "?new \<in> set ?m1"
      using map_of_dict_set [of h "new_entry t v" m] by (intro map_of_SomeD) simp
    ultimately have "?new \<in> set ?m2" by simp
    moreover have "distinct (map fst ?m2)"
      using distinct_dict_set [OF d] by (simp add: distinct_map_filter)
    ultimately have "map_of ?m2 h = Some (new_entry t v)" by (intro map_of_is_SomeI)
    from live [OF this] put show ?thesis by simp
  qed
qed

theorem get_after_put_witness:
  "memory \<lparr>memory = PDict [([97], new_entry 1 (PInt 1))], memory_timeout = 300, max_memory_size = 1\<rparr> =
     PDict [([97], new_entry 1 (PInt 1))] \<and>
   hash_key plain_digest (PStr [98]) = Inr [98] \<and>
   0 \<le> memory_timeout \<lparr>memory = PDict [([97], new_entry 1 (PInt 1))], memory_timeout = 300, max_memory_size = 1\<rparr> \<and>
   well_formed \<lparr>memory = PDict [([97], new_entry 1 (PInt 1))], memory_timeout = 300, max_memory_size = 1\<rparr> \<and>
   1 \<le> max_memory_size \<lparr>memory = PDict [([97], new_entry 1 (PInt 1))], memory_timeout = 300, max_memory_size = 1\<rparr> \<and>
   written ([97], new_entry 1 (PInt 1)) < 2 \<and>
   fst (add_to_memory plain_digest
     \<lparr>memory = PDict [([97], new_entry 1 (PInt 1))], memory_timeout = 300, max_memory_size = 1\<rparr>
     (PStr [98]) (PInt 2) 2) = Inr () \<and>
   fst (get_from_memory plain_digest (snd (add_to_memory plain_digest
     \<lparr>memory = PDict [([97], new_entry 1 (PInt 1))], memory_timeout = 300, max_memory_size = 1\<rparr>
     (PStr [98]) (PInt 2) 2)) (PStr [98]) 2) = Inr (PInt 2)"
  using get_after_put
    [where s = "\<lparr>memory = PDict [([97], new_entry 1 (PInt 1))], memory_timeout = 300, max_memory_size = 1\<rparr>"
       and m = "[([97], new_entry 1 (PInt 1))]" and ?sha256.0 = plain_digest and key = "PStr [98]"
       and h = "[98]" and t = 2 and v = "PInt 2"]
  by (simp add: run_defs notion_defs field_names_differ)

text \<open>
  Without these conditions the value is not there: with a limit of 0 the call evicts the
  entry it has just written, with a negative timeout the entry is expired at once, and an
  entry with a later timestamp outlives the new one when the store is full.
\<close>

theorem put_then_get_counterexample:
  "fst (add_to_memory plain_digest (init 300 0) (PStr [97]) (PInt 1) 0) = Inr () \<and>
   fst (get_from_memory plain_digest
     (snd (add_to_memory plain_digest (init 300 0) (PStr [97]) (PInt 1) 0)) (PStr [97]) 0) = Inr PNone \<and>
   fst (add_to_memory plain_digest (init (- 1) 1024) (PStr [97]) (PInt 1) 0) = Inr () \<and>
   fst (get_from_memory plain_digest
     (snd (add_to_memory plain_digest (init (- 1) 1024) (PStr [97]) (PInt 1) 0)) (PStr [97]) 0) = Inr PNone \<and>
   fst (add_to_memory plain_digest
     \<lparr>memory = PDict [([98], new_entry 100 (PInt 2))], memory_timeout = 300, max_memory_size = 1\<rparr>
     (PStr [97]) (PInt 1) 50) = Inr () \<and>
   fst (get_from_memory plain_digest (snd (add_to_memory plain_digest
     \<lparr>memory = PDict [([98], new_entry 100 (PInt 2))], memory_timeout = 300, max_memory_size = 1\<rparr>
     (PStr [97]) (PInt 1) 50)) (PStr [97]) 50) = Inr PNone"
  by (simp add: run_defs field_names_differ)

text \<open>
  C2: whatever the store, its configuration and the calls, when a sequence of
  \<^verbatim>\<open>add_to_memory\<close> calls has returned the store is a dictionary with at most
  \<^verbatim>\<open>max_memory_size\<close> entries; as every prefix of a sequence is a sequence, this holds
  after each call that returns. When the assignment of a call leaves the dictionary over
  the limit and the call returns, the dictionary has exactly \<^verbatim>\<open>max_memory_size\<close> entries.
\<close>

theorem entries_within_capacity:
  "(calls \<noteq> [] \<and> add_all sha256 s calls = (Inr (), s') \<longrightarrow>
      (\<exists>n. py_len (memory s') = Inr n \<and> n \<le> max_memory_size s)) \<and>
   (add_to_memory sha256 s1 key v t = (Inr (), s1') \<and> hash_key sha256 key = Inr h \<and>
    memory s1 = PDict m \<and> max_memory_size s1 < int (length (dict_set h (new_entry t v) m)) \<longrightarrow>
      py_len (memory s1') = Inr (max_memory_size s1))"
proof (intro conjI impI)
  assume "calls \<noteq> [] \<and> add_all sha256 s calls = (Inr (), s')"
  then obtain m' where "memory s' = PDict m'" "int (length m') \<le> max_memory_size s"
    using add_all_bound [of calls sha256 s s'] by auto
  then show "\<exists>n. py_len (memory s') = Inr n \<and> n \<le> max_memory_size s" by simp
next
  assume "add_to_memory sha256 s1 key v t = (Inr (), s1') \<and> hash_key sha256 key = Inr h \<and>
    memory s1 = PDict m \<and> max_memory_size s1 < int (length (dict_set h (new_entry t v) m))"
  then obtain m' where "memory s1' = PDict m'" "int (length m') = max_memory_size s1"
    using add_to_memory_exact [of sha256 s1 key v t s1' h m] by auto
  then show "py_len (memory s1') = Inr (max_memory_size s1)" by simp
qed

theorem entries_within_capacity_witness:
  "([(PStr [97], PInt 1, 1), (PStr [98], PInt 2, 2)] \<noteq> [] \<and>
    add_all plain_digest (init 300 1) [(PStr [97], PInt 1, 1), (PStr [98], PInt 2, 2)] =
      (Inr (), \<lparr>memory = PDict [([98], new_entry 2 (PInt 2))], memory_timeout = 300,
                max_memory_size = 1\<rparr>)) \<and>
   py_len (PDict [([98], new_entry 2 (PInt 2))]) = Inr 1 \<and>
   add_to_memory plain_digest
     \<lparr>memory = PDict [([97], new_entry 1 (PInt 1))], memory_timeout = 300, max_memory_size = 1\<rparr>
     (PStr [98]) (PInt 2) 2 =
     (Inr (), \<lparr>memory = PDict [([98], new_entry 2 (PInt 2))], memory_timeout = 300,
               max_memory_size = 1\<rparr>) \<and>
   hash_key plain_digest (PStr [98]) = Inr [98] \<and>
   max_memory_size \<lparr>memory = PDict [([97], new_entry 1 (PInt 1))], memory_timeout = 300,
       max_memory_size = 1\<rparr>
     < int (length (dict_set [98] (new_entry 2 (PInt 2)) [([97], new_entry 1 (PInt 1))]))"
  using entries_within_capacity
    [where calls = "[(PStr [97], PInt 1, 1), (PStr [98], PInt 2, 2)]" and ?sha256.0 = plain_digest
       and s = "init 300 1"
       and s' = "\<lparr>memory = PDict [([98], new_entry 2 (PInt 2))], memory_timeout = 300, max_memory_size = 1\<rparr>"
       and ?s1.0 = "\<lparr>memory = PDict [([97], new_entry 1 (PInt 1))], memory_timeout = 300, max_memory_size = 1\<rparr>"
       and key = "PStr [98]" and v = "PInt 2" and t = 2
       and s1' = "\<lparr>memory = PDict [([98], new_entry 2 (PInt 2))], memory_timeout = 300, max_memory_size = 1\<rparr>"
       and h = "[98]" and m = "[([97], new_entry 1 (PInt 1))]"]
  by (simp add: run_defs field_names_differ)

text \<open>
  C3: \<^verbatim>\<open>get_from_memory\<close> returns the stored value itself for an entry that is present and
  not expired, and \<^verbatim>\<open>None\<close> for a key that is absent or expired; the two results differ
  exactly when the stored value is not \<^verbatim>\<open>None\<close>. An entry is expired when its age, the
  rounded difference that the method computes, is not \<^verbatim>\<open><=\<close> the timeout.
\<close>

theorem found_result_is_the_value:
  assumes "memory s = PDict m" "hash_key sha256 key = Inr h" "map_of m h = Some entry"
    "entry_time entry = Some t0" "py_getitem entry (str ''data'') = Inr v"
    "float_le (float_sub t t0) (memory_timeout s)"
    "\<not> float_le (float_sub t' t0) (memory_timeout s)"
    "hash_key sha256 key' = Inr h'" "map_of m h' = None"
  shows "fst (get_from_memory sha256 s key t) = Inr v \<and>
    fst (get_from_memory sha256 s key t') = Inr PNone \<and>
    fst (get_from_memory sha256 s key' t) = Inr PNone \<and>
    (fst (get_from_memory sha256 s key t) = fst (get_from_memory sha256 s key' t) \<longleftrightarrow> v = PNone)"
  using assms by (auto simp: get_live get_expired get_absent)

theorem found_result_is_the_value_witness:
  "memory \<lparr>memory = PDict [([97], new_entry 0 (PInt 7))], memory_timeout = 300, max_memory_size = 1024\<rparr>
     = PDict [([97], new_entry 0 (PInt 7))] \<and>
   hash_key plain_digest (PStr [97]) = Inr [97] \<and>
   map_of [([97], new_entry 0 (PInt 7))] [97] = Some (new_entry 0 (PInt 7)) \<and>
   entry_time (new_entry 0 (PInt 7)) = Some 0 \<and>
   py_getitem (new_entry 0 (PInt 7)) (str ''data'') = Inr (PInt 7) \<and>
   float_le (float_sub 10 0) 300 \<and> \<not> float_le (float_sub 400 0) 300 \<and>
   hash_key plain_digest (PStr [98]) = Inr [98] \<and>
   map_of [([97::nat], new_entry 0 (PInt 7))] [98] = None \<and>
   fst (get_from_memory plain_digest
     \<lparr>memory = PDict [([97], new_entry 0 (PInt 7))], memory_timeout = 300, max_memory_size = 1024\<rparr>
     (PStr [97]) 10) = Inr (PInt 7) \<and>
   fst (get_from_memory plain_digest
     \<lparr>memory = PDict [([97], new_entry 0 (PInt 7))], memory_timeout = 300, max_memory_size = 1024\<rparr>
     (PStr [97]) 400) = Inr PNone \<and>
   fst (get_from_memory plain_digest
     \<lparr>memory = PDict [([97], new_entry 0 (PInt 7))], memory_timeout = 300, max_memory_size = 1024\<rparr>
     (PStr [98]) 10) = Inr PNone"
  using found_result_is_the_value
    [where s = "\<lparr>memory = PDict [([97], new_entry 0 (PInt 7))], memory_timeout = 300, max_memory_size = 1024\<rparr>"
       and m = "[([97], new_entry 0 (PInt 7))]" and ?sha256.0 = plain_digest and key = "PStr [97]"
       and h = "[97]" and entry = "new_entry 0 (PInt 7)" and ?t0.0 = 0 and v = "PInt 7"
       and t = 10 and t' = 400 and key' = "PStr [98]" and h' = "[98]"]
  by (simp add: run_defs entry_time_def field_names_differ)

text \<open>
  A stored \<^verbatim>\<open>None\<close> is returned as the \<^verbatim>\<open>None\<close> of a missing key, and the store is the same
  after both calls.
\<close>

theorem found_none_like_not_found:
  "get_from_memory plain_digest
     (snd (add_to_memory plain_digest (init 300 1024) (PStr [97]) PNone 0)) (PStr [97]) 1 =
   get_from_memory plain_digest
     (snd (add_to_memory plain_digest (init 300 1024) (PStr [97]) PNone 0)) (PStr [98]) 1 \<and>
   memory (snd (add_to_memory plain_digest (init 300 1024) (PStr [97]) PNone 0)) =
     PDict [([97], PDict [(str ''timestamp'', PFloat 0), (str ''data'', PNone)])]"
  by (simp add: run_defs field_names_differ)

text \<open>
  C4: for a key whose entry is present, \<^verbatim>\<open>get_from_memory\<close> at time \<open>t\<close> returns the stored
  value and leaves the store alone when the age it computes, the rounded difference of
  \<open>t\<close> and the timestamp, is \<^verbatim>\<open><=\<close> the timeout; otherwise it deletes the entry and
  returns \<^verbatim>\<open>None\<close>. After any one call of a public method, whether it returns or raises,
  the entry is still in the store as it was, unless the call is a \<^verbatim>\<open>get_from_memory\<close> of a
  key with the same digest, an \<^verbatim>\<open>add_to_memory\<close> of a key with the same digest or one that
  leaves the dictionary over the limit, or a \<^verbatim>\<open>load_memory\<close>.
\<close>

theorem expiry_only_on_access:
  assumes "memory s = PDict m" "distinct (map fst m)" "hash_key sha256 key = Inr h"
    "map_of m h = Some entry" "entry_time entry = Some t0"
    "py_getitem entry (str ''data'') = Inr v"
  shows "(float_le (float_sub t t0) (memory_timeout s) \<longrightarrow>
       get_from_memory sha256 s key t = (Inr v, s)) \<and>
    (\<not> float_le (float_sub t' t0) (memory_timeout s) \<longrightarrow>
       get_from_memory sha256 s key t' = (Inr PNone, s\<lparr>memory := PDict (dict_delete h m)\<rparr>) \<and>
       map_of (dict_delete h m) h = None) \<and>
    (py_getitem (memory (store_after sha256 fs s c)) h = Inr entry \<or> can_remove sha256 s h c)"
proof (intro conjI impI)
  assume "float_le (float_sub t t0) (memory_timeout s)"
  with assms show "get_from_memory sha256 s key t = (Inr v, s)" by (simp add: get_live)
next
  assume "\<not> float_le (float_sub t' t0) (memory_timeout s)"
  with assms show "get_from_memory sha256 s key t' = (Inr PNone, s\<lparr>memory := PDict (dict_delete h m)\<rparr>)"
    by (simp add: get_expired)
next
  from assms show "map_of (dict_delete h m) h = None" by (simp add: map_of_dict_delete_same)
next
  have here: "py_getitem (memory s) h = Inr entry" using assms by simp
  show "py_getitem (memory (store_after sha256 fs s c)) h = Inr entry \<or> can_remove sha256 s h c"
  proof (cases c)
    case (Add_to_memory key2 v2 t2)
    show ?thesis
    proof (cases "hash_key sha256 key2")
      case (Inl e)
      with Add_to_memory here show ?thesis by (simp add: add_to_memory_def)
    next
      case (Inr h2)
      show ?thesis
      proof (cases "h2 = h \<or> max_memory_size s < int (length (dict_set h2 (new_entry t2 v2) m))")
        case True
        with Add_to_memory Inr assms(1) show ?thesis by auto
      next
        case False
        with Inr assms(1) have "add_to_memory sha256 s key2 v2 t2 =
          (Inr (), s\<lparr>memory := PDict (dict_set h2 (new_entry t2 v2) m)\<rparr>)"
          by (simp add: add_to_memory_unfold)
        with False Add_to_memory assms(4) show ?thesis by (auto simp: map_of_dict_set)
      qed
    qed
  next
    case (Get_from_memory key1 t1)
    show ?thesis
    proof (cases "hash_key sha256 key1 = Inr h")
      case True
      with Get_from_memory show ?thesis by simp
    next
      case other: False
      from get_memory_after [of sha256 s key1 t1]
      have "py_getitem (memory (snd (get_from_memory sha256 s key1 t1))) h = Inr entry"
      proof
        assume "memory (snd (get_from_memory sha256 s key1 t1)) = memory s"
        with here show ?thesis by simp
      next
        assume "\<exists>h' m'. hash_key sha256 key1 = Inr h' \<and> memory s = PDict m' \<and>
          memory (snd (get_from_memory sha256 s key1 t1)) = PDict (dict_delete h' m')"
        with other assms show ?thesis by (auto simp: map_of_dict_delete_other)
      qed
      with Get_from_memory show ?thesis by simp
    qed
  next
    case (Save_memory filename)
    with here show ?thesis by simp
  next
    case (Load_memory filename)
    then show ?thesis by simp
  qed
qed

theorem expiry_only_on_access_witness:
  "memory \<lparr>memory = PDict [([97], new_entry 0 (PInt 7))], memory_timeout = 300, max_memory_size = 1024\<rparr> =
     PDict [([97], new_entry 0 (PInt 7))] \<and>
   distinct (map fst [([97::nat], new_entry 0 (PInt 7))]) \<and>
   hash_key plain_digest (PStr [97]) = Inr [97] \<and>
   map_of [([97], new_entry 0 (PInt 7))] [97] = Some (new_entry 0 (PInt 7)) \<and>
   entry_time (new_entry 0 (PInt 7)) = Some 0 \<and>
   py_getitem (new_entry 0 (PInt 7)) (str ''data'') = Inr (PInt 7) \<and>
   float_le (float_sub 10 0) 300 \<and> \<not> float_le (float_sub 400 0) 300 \<and>
   get_from_memory plain_digest
     \<lparr>memory = PDict [([97], new_entry 0 (PInt 7))], memory_timeout = 300, max_memory_size = 1024\<rparr>
     (PStr [97]) 10 =
     (Inr (PInt 7),
      \<lparr>memory = PDict [([97], new_entry 0 (PInt 7))], memory_timeout = 300, max_memory_size = 1024\<rparr>) \<and>
   get_from_memory plain_digest
     \<lparr>memory = PDict [([97], new_entry 0 (PInt 7))], memory_timeout = 300, max_memory_size = 1024\<rparr>
     (PStr [97]) 400 =
     (Inr PNone, \<lparr>memory = PDict [], memory_timeout = 300, max_memory_size = 1024\<rparr>) \<and>
   \<not> can_remove plain_digest
     \<lparr>memory = PDict [([97], new_entry 0 (PInt 7))], memory_timeout = 300, max_memory_size = 1024\<rparr>
     [97] (Add_to_memory (PStr [98]) (PInt 8) 500) \<and>
   py_getitem (memory (store_after plain_digest Map.empty
     \<lparr>memory = PDict [([97], new_entry 0 (PInt 7))], memory_timeout = 300, max_memory_size = 1024\<rparr>
     (Add_to_memory (PStr [98]) (PInt 8) 500))) [97] = Inr (new_entry 0 (PInt 7))"
  using expiry_only_on_access
    [where s = "\<lparr>memory = PDict [([97], new_entry 0 (PInt 7))], memory_timeout = 300, max_memory_size = 1024\<rparr>"
       and m = "[([97], new_entry 0 (PInt 7))]" and ?sha256.0 = plain_digest and key = "PStr [97]"
       and h = "[97]" and entry = "new_entry 0 (PInt 7)" and ?t0.0 = 0 and v = "PInt 7"
       and t = 10 and t' = 400 and fs = Map.empty
       and c = "Add_to_memory (PStr [98]) (PInt 8) 500"]
  by (simp add: run_defs notion_defs field_names_differ)

text \<open>
  \<^verbatim>\<open>load_memory\<close> takes entries out of the store without any \<^verbatim>\<open>get_from_memory\<close> and
  without an eviction, expired or not: here the file is missing and the store is emptied,
  and a file with another document replaces the store by that document.
\<close>

theorem load_removes_entries:
  "load_memory
     \<lparr>memory = PDict [([97], new_entry 0 (PInt 7))], memory_timeout = 300, max_memory_size = 1024\<rparr>
     ''persistent_memory.json'' Map.empty =
     (Inr (), \<lparr>memory = PDict [], memory_timeout = 300, max_memory_size = 1024\<rparr>) \<and>
   load_memory
     \<lparr>memory = PDict [([97], new_entry 0 (PInt 7))], memory_timeout = 300, max_memory_size = 1024\<rparr>
     ''persistent_memory.json'' (Map.empty(''persistent_memory.json'' \<mapsto> Json_document (PList []))) =
     (Inr (), \<lparr>memory = PList [], memory_timeout = 300, max_memory_size = 1024\<rparr>) \<and>
   py_getitem (memory (store_after plain_digest Map.empty
     \<lparr>memory = PDict [([97], new_entry 0 (PInt 7))], memory_timeout = 300, max_memory_size = 1024\<rparr>
     (Load_memory ''persistent_memory.json''))) [97] = Inl KeyError"
  by (simp add: load_memory_def open_read_def json_load_def)

text \<open>
  C5: when \<^verbatim>\<open>add_to_memory\<close> returns on a well-formed store, the dictionary is the one
  after the assignment without its evicted items, which are the first items in ascending
  order of timestamp, as many as the dictionary was over the limit; every evicted item is
  at most as recent as every item kept. In particular, on a new store with a limit of 2,
  after three calls for keys with different digests at increasing times,
  \<^verbatim>\<open>get_from_memory\<close> returns \<^verbatim>\<open>None\<close> for the first key and the values of the second and
  the third, as long as these have not expired.
\<close>

theorem eviction_oldest_first:
  "(well_formed s \<and> memory s = PDict m \<and> hash_key sha256 key = Inr h \<and>
    add_to_memory sha256 s key v t = (Inr (), s') \<longrightarrow>
      memory s' = PDict (kept (max_memory_size s) (dict_set h (new_entry t v) m)) \<and>
      evicted (max_memory_size s) (dict_set h (new_entry t v) m) =
        take (length (dict_set h (new_entry t v) m) - nat (max_memory_size s))
          (sort_key written (dict_set h (new_entry t v) m)) \<and>
      (\<forall>x \<in> set (evicted (max_memory_size s) (dict_set h (new_entry t v) m)).
       \<forall>y \<in> set (kept (max_memory_size s) (dict_set h (new_entry t v) m)).
         written x \<le> written y)) \<and>
   (hash_key sha256 a = Inr ha \<and> hash_key sha256 b = Inr hb \<and> hash_key sha256 c = Inr hc \<and>
    ha \<noteq> hb \<and> ha \<noteq> hc \<and> hb \<noteq> hc \<and> ta < tb \<and> tb < tc \<and>
    float_le (float_sub t2 tb) ttl \<and> float_le (float_sub t3 tc) ttl \<longrightarrow>
      (\<exists>s3. add_all sha256 (init ttl 2) [(a, va, ta), (b, vb, tb), (c, vc, tc)] = (Inr (), s3) \<and>
         get_from_memory sha256 s3 a t1 = (Inr PNone, s3) \<and>
         get_from_memory sha256 s3 b t2 = (Inr vb, s3) \<and>
         get_from_memory sha256 s3 c t3 = (Inr vc, s3)))"
proof (intro conjI impI)
  assume a: "well_formed s \<and> memory s = PDict m \<and> hash_key sha256 key = Inr h \<and>
    add_to_memory sha256 s key v t = (Inr (), s')"
  then have "0 \<le> max_memory_size s"
    using add_to_memory_negative [of s sha256 key v t "Inr ()" s'] by force
  with a have "add_to_memory sha256 s key v t =
    (Inr (), s\<lparr>memory := PDict (kept (max_memory_size s) (dict_set h (new_entry t v) m))\<rparr>)"
    unfolding kept_def by (intro add_to_memory_well_formed) simp_all
  with a show "memory s' = PDict (kept (max_memory_size s) (dict_set h (new_entry t v) m))"
    by auto
next
  show "evicted (max_memory_size s) (dict_set h (new_entry t v) m) =
        take (length (dict_set h (new_entry t v) m) - nat (max_memory_size s))
          (sort_key written (dict_set h (new_entry t v) m))"
    by (simp add: evicted_def)
next
  show "\<forall>x \<in> set (evicted (max_memory_size s) (dict_set h (new_entry t v) m)).
       \<forall>y \<in> set (kept (max_memory_size s) (dict_set h (new_entry t v) m)).
         written x \<le> written y"
    by (intro ballI) (rule evicted_older)
next
  assume a: "hash_key sha256 a = Inr ha \<and> hash_key sha256 b = Inr hb \<and> hash_key sha256 c = Inr hc \<and>
    ha \<noteq> hb \<and> ha \<noteq> hc \<and> hb \<noteq> hc \<and> ta < tb \<and> tb < tc \<and>
    float_le (float_sub t2 tb) ttl \<and> float_le (float_sub t3 tc) ttl"
  let ?s3 = "\<lparr>memory = PDict [(hb, new_entry tb vb), (hc, new_entry tc vc)],
       memory_timeout = ttl, max_memory_size = 2\<rparr>"
  from a have "add_all sha256 (init ttl 2) [(a, va, ta), (b, vb, tb), (c, vc, tc)] = (Inr (), ?s3)"
    by (intro three_puts [where ha = ha]) simp_all
  moreover from a have "get_from_memory sha256 ?s3 a t1 = (Inr PNone, ?s3)"
    by (intro get_absent [where m = "[(hb, new_entry tb vb), (hc, new_entry tc vc)]" and h = ha]) simp_all
  moreover have "get_from_memory sha256 ?s3 b t2 = (Inr vb, ?s3)"
    by (rule get_live [where m = "[(hb, new_entry tb vb), (hc, new_entry tc vc)]" and h = hb
          and entry = "new_entry tb vb" and ?t0.0 = tb])
      (use a in \<open>auto simp: entry_time_def new_entry_fields\<close>)
  moreover have "get_from_memory sha256 ?s3 c t3 = (Inr vc, ?s3)"
    by (rule get_live [where m = "[(hb, new_entry tb vb), (hc, new_entry tc vc)]" and h = hc
          and entry = "new_entry tc vc" and ?t0.0 = tc])
      (use a in \<open>auto simp: entry_time_def new_entry_fields\<close>)
  ultimately show "\<exists>s3. add_all sha256 (init ttl 2) [(a, va, ta), (b, vb, tb), (c, vc, tc)] = (Inr (), s3) \<and>
         get_from_memory sha256 s3 a t1 = (Inr PNone, s3) \<and>
         get_from_memory sha256 s3 b t2 = (Inr vb, s3) \<and>
         get_from_memory sha256 s3 c t3 = (Inr vc, s3)"
    by blast
qed

theorem eviction_oldest_first_witness:
  "well_formed \<lparr>memory = PDict [([97], new_entry 1 (PInt 1))], memory_timeout = 300, max_memory_size = 1\<rparr> \<and>
   memory \<lparr>memory = PDict [([97], new_entry 1 (PInt 1))], memory_timeout = 300, max_memory_size = 1\<rparr> =
     PDict [([97], new_entry 1 (PInt 1))] \<and>
   hash_key plain_digest (PStr [98]) = Inr [98] \<and>
   add_to_memory plain_digest
     \<lparr>memory = PDict [([97], new_entry 1 (PInt 1))], memory_timeout = 300, max_memory_size = 1\<rparr>
     (PStr [98]) (PInt 2) 2 =
     (Inr (), \<lparr>memory = PDict [([98], new_entry 2 (PInt 2))], memory_timeout = 300, max_memory_size = 1\<rparr>) \<and>
   evicted 1 (dict_set [98] (new_entry 2 (PInt 2)) [([97], new_entry 1 (PInt 1))]) =
     [([97], new_entry 1 (PInt 1))] \<and>
   kept 1 (dict_set [98] (new_entry 2 (PInt 2)) [([97], new_entry 1 (PInt 1))]) =
     [([98], new_entry 2 (PInt 2))] \<and>
   written ([97], new_entry 1 (PInt 1)) \<le> written ([98], new_entry 2 (PInt 2)) \<and>
   hash_key plain_digest (PStr [97]) = Inr [97] \<and> hash_key plain_digest (PStr [99]) = Inr [99] \<and>
   [97] \<noteq> [98::nat] \<and> [97] \<noteq> [99::nat] \<and> [98] \<noteq> [99::nat] \<and>
   (1::real) < 2 \<and> (2::real) < 3 \<and> float_le (float_sub 4 2) 300 \<and> float_le (float_sub 4 3) 300 \<and>
   add_all plain_digest (init 300 2)
     [(PStr [97], PInt 1, 1), (PStr [98], PInt 2, 2), (PStr [99], PInt 3, 3)] =
     (Inr (), \<lparr>memory = PDict [([98], new_entry 2 (PInt 2)), ([99], new_entry 3 (PInt 3))],
        memory_timeout = 300, max_memory_size = 2\<rparr>) \<and>
   fst (get_from_memory plain_digest
     \<lparr>memory = PDict [([98], new_entry 2 (PInt 2)), ([99], new_entry 3 (PInt 3))],
        memory_timeout = 300, max_memory_size = 2\<rparr> (PStr [97]) 4) = Inr PNone \<and>
   fst (get_from_memory plain_digest
     \<lparr>memory = PDict [([98], new_entry 2 (PInt 2)), ([99], new_entry 3 (PInt 3))],
        memory_timeout = 300, max_memory_size = 2\<rparr> (PStr [98]) 4) = Inr (PInt 2) \<and>
   fst (get_from_memory plain_digest
     \<lparr>memory = PDict [([98], new_entry 2 (PInt 2)), ([99], new_entry 3 (PInt 3))],
        memory_timeout = 300, max_memory_size = 2\<rparr> (PStr [99]) 4) = Inr (PInt 3)"
  using eviction_oldest_first
    [where s = "\<lparr>memory = PDict [([97], new_entry 1 (PInt 1))], memory_timeout = 300, max_memory_size = 1\<rparr>"
       and m = "[([97], new_entry 1 (PInt 1))]" and ?sha256.0 = plain_digest and key = "PStr [98]"
       and h = "[98]" and v = "PInt 2" and t = 2
       and s' = "\<lparr>memory = PDict [([98], new_entry 2 (PInt 2))], memory_timeout = 300, max_memory_size = 1\<rparr>"
       and a = "PStr [97]" and b = "PStr [98]" and c = "PStr [99]" and ha = "[97]" and hb = "[98]"
       and hc = "[99]" and ta = 1 and tb = 2 and tc = 3 and ?t1.0 = 4 and ?t2.0 = 4 and ?t3.0 = 4
       and ttl = 300 and va = "PInt 1" and vb = "PInt 2" and vc = "PInt 3"]
  by (simp add: run_defs notion_defs field_names_differ)




text \<open>
  C7: when the file exists and its content is not JSON, \<^verbatim>\<open>load_memory\<close> raises
  \<^verbatim>\<open>JSONDecodeError\<close> (\<^verbatim>\<open>UnicodeDecodeError\<close> when the content is not even text), which it
  does not catch, and the store, \<^verbatim>\<open>memory\<close> included, is exactly as before the call. The
  caller can tell this from the missing file, for which the call returns.
\<close>

theorem load_malformed_keeps_memory:
  assumes "fs filename = Some Not_json \<or> fs filename = Some Not_text"
  shows "load_memory s filename fs =
      (Inl (if fs filename = Some Not_json then JSONDecodeError else UnicodeDecodeError), s) \<and>
    fst (load_memory s filename (fs(filename := None))) = Inr ()"
  using assms by (auto simp: load_memory_def open_read_def json_load_def)

theorem load_malformed_keeps_memory_witness:
  "(Map.empty(''persistent_memory.json'' \<mapsto> Not_json)) ''persistent_memory.json'' = Some Not_json \<and>
   load_memory
     \<lparr>memory = PDict [([97], new_entry 5 (PInt 1))], memory_timeout = 300, max_memory_size = 1024\<rparr>
     ''persistent_memory.json'' (Map.empty(''persistent_memory.json'' \<mapsto> Not_json)) =
     (Inl JSONDecodeError,
      \<lparr>memory = PDict [([97], new_entry 5 (PInt 1))], memory_timeout = 300, max_memory_size = 1024\<rparr>)"
  using load_malformed_keeps_memory
    [of "Map.empty(''persistent_memory.json'' \<mapsto> Not_json)" "''persistent_memory.json''"
        "\<lparr>memory = PDict [([97], new_entry 5 (PInt 1))], memory_timeout = 300, max_memory_size = 1024\<rparr>"]
  by simp

text \<open>
  C8: when the path names no file, \<^verbatim>\<open>load_memory\<close> returns normally and \<^verbatim>\<open>memory\<close> is
  the empty dictionary, whatever it held before.
\<close>

theorem load_missing_resets_memory:
  assumes "fs filename = None"
  shows "load_memory s filename fs = (Inr (), s\<lparr>memory := PDict []\<rparr>)"
  using assms by (simp add: load_memory_def open_read_def)

theorem load_missing_resets_memory_witness:
  "(Map.empty :: filesystem) ''persistent_memory.json'' = None \<and>
   load_memory \<lparr>memory = PDict [([97], new_entry 5 (PInt 1))], memory_timeout = 300, max_memory_size = 1024\<rparr>
       ''persistent_memory.json'' Map.empty =
     (Inr (), \<lparr>memory = PDict [], memory_timeout = 300, max_memory_size = 1024\<rparr>)"
  using load_missing_resets_memory
    [of Map.empty "''persistent_memory.json''"
        "\<lparr>memory = PDict [([97], new_entry 5 (PInt 1))], memory_timeout = 300, max_memory_size = 1024\<rparr>"]
  by simp

text \<open>
  C9: for a key that is not a string, key hashing raises \<^verbatim>\<open>AttributeError\<close>, and so do
  \<^verbatim>\<open>add_to_memory\<close> and \<^verbatim>\<open>get_from_memory\<close>, which leave the store as it was. For a string
  key without surrogate code points key hashing returns, and on a well-formed store whose
  limit is not negative both calls return.
\<close>

theorem keys_are_strings:
  "(\<not> is_str key \<longrightarrow>
      hash_key sha256 key = Inl AttributeError \<and>
      add_to_memory sha256 s key v t = (Inl AttributeError, s) \<and>
      get_from_memory sha256 s key t = (Inl AttributeError, s)) \<and>
   (\<not> list_ex is_surrogate k \<and> well_formed s' \<and> 0 \<le> max_memory_size s' \<longrightarrow>
      hash_key sha256 (PStr k) = Inr (sha256 (concat (map utf8_char k))) \<and>
      fst (add_to_memory sha256 s' (PStr k) v t) = Inr () \<and>
      (\<exists>r. fst (get_from_memory sha256 s' (PStr k) t) = Inr r))"
proof (intro conjI impI)
  assume "\<not> is_str key"
  then show "hash_key sha256 key = Inl AttributeError" by (rule hash_key_not_str)
  then show "add_to_memory sha256 s key v t = (Inl AttributeError, s)"
    "get_from_memory sha256 s key t = (Inl AttributeError, s)"
    by (simp_all add: add_to_memory_def get_from_memory_def)
next
  assume a: "\<not> list_ex is_surrogate k \<and> well_formed s' \<and> 0 \<le> max_memory_size s'"
  then show h: "hash_key sha256 (PStr k) = Inr (sha256 (concat (map utf8_char k)))"
    by (simp add: hash_key_str)
  from a obtain m where m: "memory s' = PDict m" "distinct (map fst m)"
    "list_all (\<lambda>item. well_formed_entry (snd item)) m"
    by (auto simp: well_formed_def split: pyval.splits)
  from a m h show "fst (add_to_memory sha256 s' (PStr k) v t) = Inr ()"
    by (simp add: add_to_memory_well_formed)
  let ?h = "sha256 (concat (map utf8_char k))"
  show "\<exists>r. fst (get_from_memory sha256 s' (PStr k) t) = Inr r"
  proof (cases "map_of m ?h")
    case None
    with m h show ?thesis by (simp add: get_absent)
  next
    case (Some entry)
    then have "(?h, entry) \<in> set m" by (rule map_of_SomeD)
    with m(3) have "well_formed_entry entry" by (auto simp: list_all_iff)
    then obtain t0 d where e: "entry_time entry = Some t0" "py_getitem entry (str ''data'') = Inr d"
      by (auto simp: well_formed_entry_def split: sum.splits)
    show ?thesis
    proof (cases "float_le (float_sub t t0) (memory_timeout s')")
      case True
      with m h Some e show ?thesis by (simp add: get_live)
    next
      case False
      with m h Some e show ?thesis by (simp add: get_expired)
    qed
  qed
qed

theorem keys_are_strings_witness:
  "\<not> is_str (PInt 5) \<and>
   hash_key plain_digest (PInt 5) = Inl AttributeError \<and>
   add_to_memory plain_digest (init 300 1024) (PInt 5) (PInt 1) 0 = (Inl AttributeError, init 300 1024) \<and>
   get_from_memory plain_digest (init 300 1024) (PInt 5) 0 = (Inl AttributeError, init 300 1024) \<and>
   \<not> list_ex is_surrogate [97] \<and> well_formed (init 300 1024) \<and>
   0 \<le> max_memory_size (init 300 1024) \<and>
   hash_key plain_digest (PStr [97]) = Inr [97] \<and>
   fst (add_to_memory plain_digest (init 300 1024) (PStr [97]) (PInt 1) 0) = Inr () \<and>
   fst (get_from_memory plain_digest (init 300 1024) (PStr [97]) 0) = Inr PNone"
  using keys_are_strings
    [where key = "PInt 5" and ?sha256.0 = plain_digest and s = "init 300 1024" and v = "PInt 1"
       and t = 0 and k = "[97]" and s' = "init 300 1024"]
  by (simp add: run_defs notion_defs field_names_differ)

text \<open>
  A string key can raise: a lone surrogate cannot be encoded, and with a negative limit
  the loop of \<^verbatim>\<open>_prune_memory\<close> pops from the empty list.
\<close>

theorem string_key_raises:
  "add_to_memory plain_digest (init 300 1024) (PStr [55296]) (PInt 1) 0 =
     (Inl UnicodeEncodeError, init 300 1024) \<and>
   get_from_memory plain_digest (init 300 1024) (PStr [55296]) 0 =
     (Inl UnicodeEncodeError, init 300 1024) \<and>
   add_to_memory plain_digest (init 300 (- 1)) (PStr [97]) (PInt 1) 0 =
     (Inl IndexError, init 300 (- 1))"
  by (simp add: run_defs field_names_differ)



end
